theory Spec2Isabelle
  imports Complex_Main "HOL-Library.Multiset"
begin

section \<open>JavaScript values\<close>

text \<open>
  The handler \<^verbatim>\<open>POST /songs/bulk\<close> of \<^verbatim>\<open>src/server.js\<close> works on parsed JSON.
  A JavaScript number is a double: the model keeps the three kinds of non-finite value
  apart and carries a finite value as the real it denotes (rounding is not modelled, and
  \<^verbatim>\<open>-0\<close> is \<^verbatim>\<open>0\<close>). A string is a list of 8-bit characters.
\<close>

datatype jsnum = NaN | NegInf | Fin real | PosInf

text \<open>\<^verbatim>\<open>a >= b\<close>: false as soon as one side is NaN.\<close>

fun js_ge :: "jsnum \<Rightarrow> jsnum \<Rightarrow> bool" where
  "js_ge NaN b = False"
| "js_ge a NaN = False"
| "js_ge PosInf b = True"
| "js_ge a NegInf = True"
| "js_ge (Fin a) (Fin b) = (b \<le> a)"
| "js_ge a b = False"

text \<open>\<^verbatim>\<open>Math.min\<close> and \<^verbatim>\<open>Math.max\<close> of two arguments: NaN when either argument is NaN.\<close>

definition Math_min :: "jsnum \<Rightarrow> jsnum \<Rightarrow> jsnum" where
  "Math_min a b = (if a = NaN \<or> b = NaN then NaN else if js_ge a b then b else a)"

definition Math_max :: "jsnum \<Rightarrow> jsnum \<Rightarrow> jsnum" where
  "Math_max a b = (if a = NaN \<or> b = NaN then NaN else if js_ge a b then a else b)"

datatype jsval =
    JUndefined
  | JNull
  | JBool bool
  | JNum jsnum
  | JStr string
  | JArr "jsval list"
  | JObj "(string \<times> jsval) list"

text \<open>
  Truthiness, as \<^verbatim>\<open>!v\<close> and \<^verbatim>\<open>a || b\<close> test it: \<^verbatim>\<open>undefined\<close>, \<^verbatim>\<open>null\<close>,
  \<^verbatim>\<open>false\<close>, \<^verbatim>\<open>0\<close>, \<^verbatim>\<open>NaN\<close> and the empty string are falsy; every array and
  every object is truthy, the empty ones too.
\<close>

fun truthy :: "jsval \<Rightarrow> bool" where
  "truthy JUndefined = False"
| "truthy JNull = False"
| "truthy (JBool b) = b"
| "truthy (JNum n) = (n \<noteq> NaN \<and> n \<noteq> Fin 0)"
| "truthy (JStr s) = (s \<noteq> [])"
| "truthy (JArr xs) = True"
| "truthy (JObj kvs) = True"

text \<open>\<^verbatim>\<open>a || b\<close> and \<^verbatim>\<open>a ?? b\<close> on values.\<close>

definition js_or :: "jsval \<Rightarrow> jsval \<Rightarrow> jsval" where
  "js_or a b = (if truthy a then a else b)"

definition nullish :: "jsval \<Rightarrow> bool" where
  "nullish v = (v = JUndefined \<or> v = JNull)"

definition js_coalesce :: "jsval \<Rightarrow> jsval \<Rightarrow> jsval" where
  "js_coalesce a b = (if nullish a then b else a)"

text \<open>
  What the handler can throw; each error carries its \<^verbatim>\<open>message\<close>. The engine
  prints a property name between single quotes.
\<close>

definition quoted :: "string \<Rightarrow> string" where
  "quoted k = [CHR 0x27] @ k @ [CHR 0x27]"

datatype exn = TypeError string | SyntaxError string

fun exn_message :: "exn \<Rightarrow> string" where
  "exn_message (TypeError m) = m"
| "exn_message (SyntaxError m) = m"

text \<open>
  Reading a property \<^verbatim>\<open>v.k\<close>. On \<^verbatim>\<open>null\<close> and \<^verbatim>\<open>undefined\<close> it throws a
  TypeError. On an object it is the stored value, or \<^verbatim>\<open>undefined\<close> for a missing
  key (an object is the association list \<^verbatim>\<open>JSON.parse\<close> built, looked up from the
  left). On a primitive or an array it is \<^verbatim>\<open>undefined\<close> for every key the handler
  reads (\<^verbatim>\<open>songs\<close>, \<^verbatim>\<open>song_name\<close>, \<^verbatim>\<open>songName\<close>, \<^verbatim>\<open>main_stanza\<close>,
  \<^verbatim>\<open>mainStanza\<close>, \<^verbatim>\<open>stanzas\<close>, \<^verbatim>\<open>created_at\<close>, \<^verbatim>\<open>last_updated_at\<close>,
  \<^verbatim>\<open>created_by\<close>, \<^verbatim>\<open>last_updated_by\<close>): none of them is a property of a
  prototype.
\<close>

fun getProp :: "jsval \<Rightarrow> string \<Rightarrow> exn + jsval" where
  "getProp JUndefined k = Inl (TypeError (''Cannot read properties of undefined (reading '' @ quoted k @ '')''))"
| "getProp JNull k = Inl (TypeError (''Cannot read properties of null (reading '' @ quoted k @ '')''))"
| "getProp (JObj kvs) k = Inr (case map_of kvs k of None \<Rightarrow> JUndefined | Some v \<Rightarrow> v)"
| "getProp v k = Inr JUndefined"

text \<open>\<^verbatim>\<open>v?.k\<close>: \<^verbatim>\<open>undefined\<close> instead of the TypeError.\<close>

definition opt_prop :: "jsval \<Rightarrow> string \<Rightarrow> jsval" where
  "opt_prop v k = (case getProp v k of Inl e \<Rightarrow> JUndefined | Inr x \<Rightarrow> x)"

fun isArray :: "jsval \<Rightarrow> bool" where
  "isArray (JArr xs) = True"
| "isArray v = False"

subsection \<open>parseFloat\<close>

text \<open>
  \<^verbatim>\<open>parseFloat\<close> skips leading white space, reads the longest prefix that is a decimal
  literal (an optional sign, then \<^verbatim>\<open>Infinity\<close> or digits with an optional fraction and
  an optional complete exponent) and returns NaN when there is none.
\<close>

definition isWhite :: "char \<Rightarrow> bool" where
  "isWhite c = (of_char c \<in> {9, 10, 11, 12, 13, 32, 160 :: nat})"

definition isDigit :: "char \<Rightarrow> bool" where
  "isDigit c = (48 \<le> (of_char c :: nat) \<and> (of_char c :: nat) \<le> 57)"

definition digitsVal :: "string \<Rightarrow> nat" where
  "digitsVal ds = foldl (\<lambda>a c. 10 * a + (of_char c - 48)) 0 ds"

fun isPrefixOf :: "string \<Rightarrow> string \<Rightarrow> bool" where
  "isPrefixOf [] ys = True"
| "isPrefixOf (x # xs) [] = False"
| "isPrefixOf (x # xs) (y # ys) = (x = y \<and> isPrefixOf xs ys)"

text \<open>The exponent part: \<^verbatim>\<open>e\<close> or \<^verbatim>\<open>E\<close>, an optional sign, at least one digit.\<close>

definition exponentPart :: "string \<Rightarrow> int" where
  "exponentPart r =
     (case r of
        [] \<Rightarrow> 0
      | c # r1 \<Rightarrow>
          if c = CHR ''e'' \<or> c = CHR ''E'' then
            (let (neg, r2) =
                   (case r1 of
                      [] \<Rightarrow> (False, r1)
                    | s # r' \<Rightarrow> if s = CHR ''-'' then (True, r')
                               else if s = CHR ''+'' then (False, r') else (False, r1));
                 ds = takeWhile isDigit r2
             in if ds = [] then 0
                else if neg then - int (digitsVal ds) else int (digitsVal ds))
          else 0)"

definition scale10 :: "real \<Rightarrow> int \<Rightarrow> real" where
  "scale10 x e = (if 0 \<le> e then x * 10 ^ nat e else x / 10 ^ nat (- e))"

definition unsignedLiteral :: "string \<Rightarrow> real option" where
  "unsignedLiteral u =
     (let ip = takeWhile isDigit u;
          r1 = dropWhile isDigit u;
          (fp, r2) =
            (case r1 of
               [] \<Rightarrow> ([], r1)
             | c # r \<Rightarrow>
                 if c = CHR ''.'' \<and> (ip \<noteq> [] \<or> takeWhile isDigit r \<noteq> [])
                 then (takeWhile isDigit r, dropWhile isDigit r)
                 else ([], r1))
      in if ip = [] \<and> fp = [] then None
         else Some (scale10
                 (real (digitsVal ip) + real (digitsVal fp) / 10 ^ length fp)
                 (exponentPart r2)))"

definition parseFloat :: "string \<Rightarrow> jsnum" where
  "parseFloat s =
     (let t = dropWhile isWhite s;
          (neg, u) =
            (case t of
               [] \<Rightarrow> (False, t)
             | c # r \<Rightarrow> if c = CHR ''-'' then (True, r)
                        else if c = CHR ''+'' then (False, r) else (False, t))
      in if isPrefixOf ''Infinity'' u then (if neg then NegInf else PosInf)
         else (case unsignedLiteral u of
                 None \<Rightarrow> NaN
               | Some x \<Rightarrow> Fin (if neg then - x else x)))"

section \<open>The persistence layer and the other collaborators\<close>

text \<open>
  A row the database returns from \<^verbatim>\<open>select("song_id, song_name")\<close>; its
  \<^verbatim>\<open>song_name\<close> is the field \<open>returned_song_name\<close>, the plain name being the field
  of the row the handler builds.
\<close>

record song =
  song_id :: nat
  returned_song_name :: string

text \<open>The row the handler builds for one accepted record.\<close>

record row =
  song_name :: jsval
  main_stanza :: jsval
  stanzas :: jsval
  created_at :: jsval
  last_updated_at :: jsval
  created_by :: jsval
  last_updated_by :: jsval

text \<open>What a Supabase call resolves to: \<^verbatim>\<open>{ data, error }\<close>, each of them possibly null.\<close>

record sb_error =
  message :: string

record sb_result =
  data :: "song list option"
  error :: "sb_error option"

text \<open>
  What the handler calls and does not define. \<^verbatim>\<open>JSON.parse\<close> returns the value or
  throws a SyntaxError (\<open>Inl\<close> its message); \<^verbatim>\<open>compareTwoStrings\<close> is the function of
  the string-similarity package, on two strings; \<^verbatim>\<open>now\<close> is what
  \<^verbatim>\<open>new Date().toISOString()\<close> reads during the request. The database is a state
  \<open>'db\<close>: the snapshot read looks at it, an insert may change it.
\<close>

record 'db env =
  JSON_parse :: "string \<Rightarrow> string + jsval"
  compareTwoStrings :: "string \<Rightarrow> string \<Rightarrow> jsnum"
  now :: string
  select_songs :: "'db \<Rightarrow> sb_result"
  insert_songs :: "'db \<Rightarrow> row list \<Rightarrow> sb_result \<times> 'db"

text \<open>The calls the handler made, in order, each with what it resolved to.\<close>

datatype db_call = SelectSongs sb_result | InsertSongs "row list" sb_result

record 'db world =
  db :: 'db
  calls :: "db_call list"

definition sb_select :: "'db env \<Rightarrow> 'db world \<Rightarrow> sb_result \<times> 'db world" where
  "sb_select env w =
     (let r = select_songs env (db w) in (r, w\<lparr>calls := calls w @ [SelectSongs r]\<rparr>))"

definition sb_insert :: "'db env \<Rightarrow> 'db world \<Rightarrow> row list \<Rightarrow> sb_result \<times> 'db world" where
  "sb_insert env w rows =
     (let (r, d) = insert_songs env (db w) rows
      in (r, \<lparr>db = d, calls = calls w @ [InsertSongs rows r]\<rparr>))"

section \<open>The request and the response\<close>

text \<open>
  The two query parameters the handler reads, each absent or a string (a repeated
  parameter, which Express hands over as an array, is not modelled).
\<close>

record query =
  allowSimilar :: "string option"
  similarity :: "string option"

text \<open>
  One element of \<^verbatim>\<open>results\<close>; a field an outcome does not carry is \<open>None\<close>. Its
  \<^verbatim>\<open>song_name\<close> and \<^verbatim>\<open>song_id\<close> are the fields \<open>o_song_name\<close> and
  \<open>o_song_id\<close>.
\<close>

record outcome =
  index :: nat
  o_song_name :: jsval
  status :: string
  reason :: "string option"
  conflictWith :: "string option"
  similarityThreshold :: "jsnum option"
  o_song_id :: "nat option"

record summary =
  requested :: nat
  created :: nat
  skipped_conflict :: nat
  invalid :: nat
  failed :: nat

datatype body = ErrorBody string | BulkBody summary "outcome list"

datatype response = Response nat body

definition jsonError :: "nat \<Rightarrow> string \<Rightarrow> response" where
  "jsonError st msg = Response st (ErrorBody msg)"

text \<open>\<^verbatim>\<open>err.message || "Database error"\<close>, sent with status 500.\<close>

definition sbAssert :: "sb_error \<Rightarrow> response" where
  "sbAssert err = jsonError 500 (if message err \<noteq> [] then message err else ''Database error'')"

section \<open>The scan of the payload\<close>

text \<open>
  An element of \<^verbatim>\<open>toInsert\<close>: \<^verbatim>\<open>{ index: i, row }\<close>, which the writer calls
  \<^verbatim>\<open>c\<close>; its fields are \<open>c_index\<close> and \<open>c_row\<close>.
\<close>

record item =
  c_index :: nat
  c_row :: row

record scan_state =
  results :: "outcome list"
  toInsert :: "item list"
  acceptedNames :: "jsval list"

text \<open>\<^verbatim>\<open>asObj\<close>: a string is parsed, anything else is passed through.\<close>

definition asObj :: "'db env \<Rightarrow> jsval \<Rightarrow> exn + jsval" where
  "asObj env v =
     (case v of
        JStr s \<Rightarrow> (case JSON_parse env s of Inl m \<Rightarrow> Inl (SyntaxError m) | Inr x \<Rightarrow> Inr x)
      | _ \<Rightarrow> Inr v)"

text \<open>
  \<^verbatim>\<open>stringSimilarity.compareTwoStrings(first, second)\<close> begins with
  \<^verbatim>\<open>first.replace(...)\<close> and \<^verbatim>\<open>second.replace(...)\<close>: on a value that is not a
  string it throws a TypeError.
\<close>

definition compare_names :: "'db env \<Rightarrow> jsval \<Rightarrow> jsval \<Rightarrow> exn + jsnum" where
  "compare_names env first second =
     (case first of
        JStr a \<Rightarrow>
          (case second of
             JStr b \<Rightarrow> Inr (compareTwoStrings env a b)
           | _ \<Rightarrow> Inl (TypeError ''second.replace is not a function''))
      | _ \<Rightarrow> Inl (TypeError ''first.replace is not a function''))"

text \<open>
  \<^verbatim>\<open>names.some((n) => compareTwoStrings(song_name, n) >= similarity)\<close>: from the left,
  stopping at the first hit, and at the first throw.
\<close>

fun some_similar :: "'db env \<Rightarrow> jsnum \<Rightarrow> jsval \<Rightarrow> jsval list \<Rightarrow> exn + bool" where
  "some_similar env t name [] = Inr False"
| "some_similar env t name (n # ns) =
     (case compare_names env name n of
        Inl e \<Rightarrow> Inl e
      | Inr s \<Rightarrow> if js_ge s t then Inr True else some_similar env t name ns)"

text \<open>
  The three fields the loop reads first, after the aliases: \<^verbatim>\<open>raw.song_name ||
  raw.songName\<close>, \<^verbatim>\<open>raw.main_stanza ?? raw.mainStanza\<close> and \<^verbatim>\<open>raw.stanzas\<close>.
  The first read throws when \<^verbatim>\<open>raw\<close> is \<^verbatim>\<open>null\<close>; once it has returned,
  \<^verbatim>\<open>raw\<close> is not nullish and the later reads cannot throw.
\<close>

definition read_fields :: "jsval \<Rightarrow> exn + (jsval \<times> jsval \<times> jsval)" where
  "read_fields raw =
     (case getProp raw ''song_name'' of
        Inl e \<Rightarrow> Inl e
      | Inr a \<Rightarrow>
          Inr (js_or a (opt_prop raw ''songName''),
               js_coalesce (opt_prop raw ''main_stanza'') (opt_prop raw ''mainStanza''),
               opt_prop raw ''stanzas''))"

text \<open>\<^verbatim>\<open>!song_name || !main_stanza || !stanzas\<close>.\<close>

definition missing_fields :: "jsval \<times> jsval \<times> jsval \<Rightarrow> bool" where
  "missing_fields f = (case f of (n, m, s) \<Rightarrow> \<not> truthy n \<or> \<not> truthy m \<or> \<not> truthy s)"

text \<open>
  \<^verbatim>\<open>blockedBySimilarity\<close>: in strict mode both \<^verbatim>\<open>some\<close> calls are made, the one on
  the snapshot first, and the result is their disjunction; in permissive mode neither
  is made.
\<close>

definition blockedBySimilarity ::
  "'db env \<Rightarrow> bool \<Rightarrow> jsnum \<Rightarrow> jsval list \<Rightarrow> jsval list \<Rightarrow> jsval \<Rightarrow> exn + bool" where
  "blockedBySimilarity env allow t existingNames accepted name =
     (if \<not> allow then
        (case some_similar env t name existingNames of
           Inl e \<Rightarrow> Inl e
         | Inr conflictExisting \<Rightarrow>
             (case some_similar env t name accepted of
                Inl e \<Rightarrow> Inl e
              | Inr conflictInPayload \<Rightarrow> Inr (conflictExisting \<or> conflictInPayload)))
      else Inr False)"

text \<open>The row: the two content fields through \<^verbatim>\<open>asObj\<close>, in this order, and the
  provenance fields with their defaults.\<close>

definition build_row :: "'db env \<Rightarrow> jsval \<Rightarrow> jsval \<times> jsval \<times> jsval \<Rightarrow> exn + row" where
  "build_row env raw f =
     (case f of (n, m, s) \<Rightarrow>
        (case asObj env m of
           Inl e \<Rightarrow> Inl e
         | Inr m' \<Rightarrow>
             (case asObj env s of
                Inl e \<Rightarrow> Inl e
              | Inr s' \<Rightarrow>
                  Inr \<lparr>song_name = n, main_stanza = m', stanzas = s',
                       created_at = js_or (opt_prop raw ''created_at'') (JStr (now env)),
                       last_updated_at = js_or (opt_prop raw ''last_updated_at'') (JStr (now env)),
                       created_by = js_or (opt_prop raw ''created_by'') (JStr ''System''),
                       last_updated_by = js_or (opt_prop raw ''last_updated_by'') (JStr [])\<rparr>)))"

definition invalid_outcome :: "nat \<Rightarrow> jsval \<Rightarrow> outcome" where
  "invalid_outcome i n =
     \<lparr>index = i, o_song_name = n, status = ''invalid'', reason = Some ''Missing fields'',
      conflictWith = None, similarityThreshold = None, o_song_id = None\<rparr>"

definition skipped_outcome :: "nat \<Rightarrow> jsval \<Rightarrow> jsnum \<Rightarrow> outcome" where
  "skipped_outcome i n t =
     \<lparr>index = i, o_song_name = n, status = ''skipped_conflict'', reason = None,
      conflictWith = Some ''similarity'', similarityThreshold = Some t, o_song_id = None\<rparr>"

text \<open>One turn of the first \<^verbatim>\<open>for\<close> loop, on \<^verbatim>\<open>payload[i]\<close>.\<close>

definition scan_step ::
  "'db env \<Rightarrow> bool \<Rightarrow> jsnum \<Rightarrow> jsval list \<Rightarrow> nat \<Rightarrow> jsval \<Rightarrow> scan_state \<Rightarrow> exn + scan_state" where
  "scan_step env allow t existingNames i raw st =
     (case read_fields raw of
        Inl e \<Rightarrow> Inl e
      | Inr f \<Rightarrow>
          if missing_fields f
          then Inr (st\<lparr>results := results st @ [invalid_outcome i (fst f)]\<rparr>)
          else
            (case blockedBySimilarity env allow t existingNames (acceptedNames st) (fst f) of
               Inl e \<Rightarrow> Inl e
             | Inr blocked \<Rightarrow>
                 if blocked
                 then Inr (st\<lparr>results := results st @ [skipped_outcome i (fst f) t]\<rparr>)
                 else
                   (case build_row env raw f of
                      Inl e \<Rightarrow> Inl e
                    | Inr r \<Rightarrow>
                        Inr (st\<lparr>toInsert := toInsert st @ [\<lparr>c_index = i, c_row = r\<rparr>],
                                acceptedNames := acceptedNames st @ [fst f]\<rparr>))))"

text \<open>The loop from index \<open>i\<close> over the rest of the payload.\<close>

fun scan ::
  "'db env \<Rightarrow> bool \<Rightarrow> jsnum \<Rightarrow> jsval list \<Rightarrow> nat \<Rightarrow> jsval list \<Rightarrow> scan_state \<Rightarrow> exn + scan_state" where
  "scan env allow t existingNames i [] st = Inr st"
| "scan env allow t existingNames i (raw # rest) st =
     (case scan_step env allow t existingNames i raw st of
        Inl e \<Rightarrow> Inl e
      | Inr st' \<Rightarrow> scan env allow t existingNames (Suc i) rest st')"

section \<open>The chunked writer\<close>

definition BATCH :: nat where
  "BATCH = 500"

text \<open>\<^verbatim>\<open>xs.slice(a, b)\<close> for \<open>a \<le> b\<close>.\<close>

definition slice :: "'a list \<Rightarrow> nat \<Rightarrow> nat \<Rightarrow> 'a list" where
  "slice xs a b = take (b - a) (drop a xs)"

definition failed_outcome :: "sb_error \<Rightarrow> item \<Rightarrow> outcome" where
  "failed_outcome err c =
     \<lparr>index = c_index c, o_song_name = song_name (c_row c), status = ''failed'',
      reason = Some (message err), conflictWith = None, similarityThreshold = None,
      o_song_id = None\<rparr>"

definition created_outcome :: "item \<Rightarrow> song \<Rightarrow> outcome" where
  "created_outcome c d =
     \<lparr>index = c_index c, o_song_name = JStr (returned_song_name d), status = ''created'',
      reason = None, conflictWith = None, similarityThreshold = None,
      o_song_id = Some (song_id d)\<rparr>"

text \<open>
  The inner loop \<^verbatim>\<open>for (k = 0; k < data.length; k++)\<close>: \<^verbatim>\<open>data[k]\<close> is paired
  with \<^verbatim>\<open>chunk[k]\<close>. When the data is longer than the chunk, \<^verbatim>\<open>chunk[k]\<close> is
  \<^verbatim>\<open>undefined\<close> and \<^verbatim>\<open>c.index\<close> throws.
\<close>

fun mark_created :: "item list \<Rightarrow> song list \<Rightarrow> outcome list \<Rightarrow> exn + outcome list" where
  "mark_created chunk [] rs = Inr rs"
| "mark_created [] (d # ds) rs =
     Inl (TypeError (''Cannot read properties of undefined (reading '' @ quoted ''index'' @ '')''))"
| "mark_created (c # cs) (d # ds) rs = mark_created cs ds (rs @ [created_outcome c d])"

text \<open>
  The loop \<^verbatim>\<open>for (off = 0; off < toInsert.length; off += BATCH)\<close>. It carries
  \<^verbatim>\<open>results\<close> and \<^verbatim>\<open>createdCount\<close>; a throw leaves the loop, and the calls already
  made stay made.
\<close>

function insert_loop ::
  "'db env \<Rightarrow> item list \<Rightarrow> nat \<Rightarrow> outcome list \<Rightarrow> nat \<Rightarrow> 'db world
     \<Rightarrow> (exn + outcome list \<times> nat) \<times> 'db world" where
  "insert_loop env ti off rs createdCount w =
     (if off < length ti then
        (let chunk = slice ti off (off + BATCH);
             call = sb_insert env w (map c_row chunk)
         in case error (fst call) of
              Some err \<Rightarrow>
                insert_loop env ti (off + BATCH) (rs @ map (failed_outcome err) chunk)
                  createdCount (snd call)
            | None \<Rightarrow>
                (case data (fst call) of
                   None \<Rightarrow>
                     (Inl (TypeError (''Cannot read properties of null (reading '' @ quoted ''length''
                        @ '')'')),
                      snd call)
                 | Some d \<Rightarrow>
                     (case mark_created chunk d rs of
                        Inl e \<Rightarrow> (Inl e, snd call)
                      | Inr rs' \<Rightarrow>
                          insert_loop env ti (off + BATCH) rs' (createdCount + length d)
                            (snd call))))
      else (Inr (rs, createdCount), w))"
  by pat_completeness auto
termination
  by (relation "measure (\<lambda>(env, ti, off, rs, createdCount, w). length ti - off)")
    (auto simp: BATCH_def)

declare insert_loop.simps [simp del]

section \<open>The handler\<close>

definition count_status :: "string \<Rightarrow> outcome list \<Rightarrow> nat" where
  "count_status s rs = length (filter (\<lambda>r. status r = s) rs)"

text \<open>
  After the loops: \<^verbatim>\<open>results.sort((a, b) => a.index - b.index)\<close> (a stable sort), the
  summary, and status 201 when something was created, 200 otherwise.
\<close>

definition reconcile :: "nat \<Rightarrow> outcome list \<Rightarrow> nat \<Rightarrow> response" where
  "reconcile n rs createdCount =
     (let sorted_rs = sort_key index rs;
          sm = \<lparr>requested = n, created = createdCount,
                skipped_conflict = count_status ''skipped_conflict'' sorted_rs,
                invalid = count_status ''invalid'' sorted_rs,
                failed = count_status ''failed'' sorted_rs\<rparr>
      in Response (if 0 < createdCount then 201 else 200) (BulkBody sm sorted_rs))"

text \<open>\<^verbatim>\<open>catch (e)\<close>: status 500 with \<^verbatim>\<open>e.message || "Bulk insert failed"\<close>.\<close>

definition catch_handler :: "exn \<Rightarrow> response" where
  "catch_handler e =
     jsonError 500 (if exn_message e \<noteq> [] then exn_message e else ''Bulk insert failed'')"

text \<open>\<^verbatim>\<open>Array.isArray(req.body) ? req.body : req.body?.songs\<close>.\<close>

definition payload_of :: "jsval \<Rightarrow> jsval" where
  "payload_of b = (if isArray b then b else opt_prop b ''songs'')"

text \<open>\<^verbatim>\<open>(req.query.allowSimilar ?? "true") === "true"\<close>.\<close>

definition allowSimilar_of :: "query \<Rightarrow> bool" where
  "allowSimilar_of q = ((case allowSimilar q of None \<Rightarrow> ''true'' | Some s \<Rightarrow> s) = ''true'')"

text \<open>\<^verbatim>\<open>Math.max(0, Math.min(1, parseFloat(req.query.similarity ?? "0.8")))\<close>.\<close>

definition similarity_of :: "query \<Rightarrow> jsnum" where
  "similarity_of q =
     Math_max (Fin 0)
       (Math_min (Fin 1) (parseFloat (case similarity q of None \<Rightarrow> ''0.8'' | Some s \<Rightarrow> s)))"

definition init_state :: scan_state where
  "init_state = \<lparr>results = [], toInsert = [], acceptedNames = []\<rparr>"

text \<open>\<^verbatim>\<open>(existing || []).map((s) => s.song_name)\<close>.\<close>

definition existingNames_of :: "sb_result \<Rightarrow> jsval list" where
  "existingNames_of r =
     map (\<lambda>s. JStr (returned_song_name s)) (case data r of None \<Rightarrow> [] | Some xs \<Rightarrow> xs)"

text \<open>
  \<^verbatim>\<open>app.post("/songs/bulk", ...)\<close>: the response sent, and the world after the request.
\<close>

definition bulkImport ::
  "'db env \<Rightarrow> query \<Rightarrow> jsval \<Rightarrow> 'db world \<Rightarrow> response \<times> 'db world" where
  "bulkImport env q b w =
     (case payload_of b of
        JArr payload \<Rightarrow>
          if payload = []
          then (jsonError 400 ''Body must be a non-empty array or { songs: [...] }'', w)
          else
            (let fetched = sb_select env w in
             case error (fst fetched) of
               Some fetchErr \<Rightarrow> (sbAssert fetchErr, snd fetched)
             | None \<Rightarrow>
                 (case scan env (allowSimilar_of q) (similarity_of q)
                         (existingNames_of (fst fetched)) 0 payload init_state of
                    Inl e \<Rightarrow> (catch_handler e, snd fetched)
                  | Inr st \<Rightarrow>
                      (case insert_loop env (toInsert st) 0 (results st) 0 (snd fetched) of
                         (Inl e, w') \<Rightarrow> (catch_handler e, w')
                       | (Inr (rs, createdCount), w') \<Rightarrow>
                           (reconcile (length payload) rs createdCount, w'))))
      | _ \<Rightarrow> (jsonError 400 ''Body must be a non-empty array or { songs: [...] }'', w))"

section \<open>Notions the properties are stated with\<close>

text \<open>
  The persistence layer is all-or-nothing on a chunk: an insert that reports no error
  returns one row for each row submitted.
\<close>

definition atomic_inserts :: "'db env \<Rightarrow> bool" where
  "atomic_inserts env =
     (\<forall>d rows. error (fst (insert_songs env d rows)) = None \<longrightarrow>
        (\<exists>xs. data (fst (insert_songs env d rows)) = Some xs \<and> length xs = length rows))"

definition whole_chunk :: "sb_result \<Rightarrow> nat \<Rightarrow> bool" where
  "whole_chunk res n = (error res = None \<longrightarrow> (\<exists>xs. data res = Some xs \<and> length xs = n))"

text \<open>The slices the writer submits: \<open>BATCH\<close> elements at a time, the last one shorter.\<close>

function chunks :: "'a list \<Rightarrow> 'a list list" where
  "chunks xs = (if xs = [] then [] else take BATCH xs # chunks (drop BATCH xs))"
  by pat_completeness auto
termination
  by (relation "measure length") (auto simp: BATCH_def)

declare chunks.simps [simp del]

text \<open>
  What the successive insert calls on a list of chunks resolve to, and the database
  they leave, each call starting from the state the one before left.
\<close>

fun run_inserts :: "'db env \<Rightarrow> 'db \<Rightarrow> row list list \<Rightarrow> sb_result list" where
  "run_inserts env d [] = []"
| "run_inserts env d (rows # rest) =
     fst (insert_songs env d rows) # run_inserts env (snd (insert_songs env d rows)) rest"

fun final_db :: "'db env \<Rightarrow> 'db \<Rightarrow> row list list \<Rightarrow> 'db" where
  "final_db env d [] = d"
| "final_db env d (rows # rest) = final_db env (snd (insert_songs env d rows)) rest"

text \<open>The outcomes one chunk contributes, and the number it adds to \<^verbatim>\<open>createdCount\<close>.\<close>

definition chunk_outcomes :: "item list \<Rightarrow> sb_result \<Rightarrow> outcome list" where
  "chunk_outcomes chunk res =
     (case error res of
        Some err \<Rightarrow> map (failed_outcome err) chunk
      | None \<Rightarrow> map2 created_outcome chunk (case data res of None \<Rightarrow> [] | Some d \<Rightarrow> d))"

definition created_in :: "sb_result \<Rightarrow> nat" where
  "created_in res =
     (case error res of Some err \<Rightarrow> 0
      | None \<Rightarrow> (case data res of None \<Rightarrow> 0 | Some d \<Rightarrow> length d))"

definition writer_result ::
  "'db env \<Rightarrow> item list \<Rightarrow> outcome list \<Rightarrow> nat \<Rightarrow> 'db world
     \<Rightarrow> (exn + outcome list \<times> nat) \<times> 'db world" where
  "writer_result env items rs cc w =
     (let cks = chunks items;
          rowss = map (map c_row) cks;
          ress = run_inserts env (db w) rowss
      in (Inr (rs @ concat (map2 chunk_outcomes cks ress), cc + sum_list (map created_in ress)),
          \<lparr>db = final_db env (db w) rowss, calls = calls w @ map2 InsertSongs rowss ress\<rparr>))"


text \<open>The scan as the handler runs it, on the snapshot it has just read.\<close>

definition scanned :: "'db env \<Rightarrow> query \<Rightarrow> 'db world \<Rightarrow> jsval list \<Rightarrow> exn + scan_state" where
  "scanned env q w payload =
     scan env (allowSimilar_of q) (similarity_of q)
       (existingNames_of (select_songs env (db w))) 0 payload init_state"

text \<open>The score of \<open>name\<close> against \<open>n\<close> is computed and is at least \<open>t\<close>.\<close>

definition similar_to :: "'db env \<Rightarrow> jsnum \<Rightarrow> jsval \<Rightarrow> jsval \<Rightarrow> bool" where
  "similar_to env t name n =
     (case compare_names env name n of Inl e \<Rightarrow> False | Inr v \<Rightarrow> js_ge v t)"

section \<open>Concrete collaborators, for closed instances\<close>

subsection \<open>The bigram coefficient of the string-similarity package\<close>

text \<open>
  \<^verbatim>\<open>compareTwoStrings\<close> as the package (version 4) computes it: white space is removed
  from both strings; equal strings score 1; a string shorter than two characters scores
  0; otherwise the bigrams of the first string are counted in a map, each bigram of the
  second string that still has a positive count takes one from it, and the score is
  twice the number of bigrams taken, over the number of bigrams of both strings. The
  score is the exact quotient, where the package returns the double nearest to it.
\<close>

fun bigrams :: "string \<Rightarrow> (char \<times> char) list" where
  "bigrams (a # b # cs) = (a, b) # bigrams (b # cs)"
| "bigrams cs = []"

definition firstBigrams :: "(char \<times> char) list \<Rightarrow> (char \<times> char \<Rightarrow> nat)" where
  "firstBigrams bs = foldl (\<lambda>m b. m(b := m b + 1)) (\<lambda>b. 0) bs"

fun intersectionSize :: "(char \<times> char \<Rightarrow> nat) \<Rightarrow> (char \<times> char) list \<Rightarrow> nat \<Rightarrow> nat" where
  "intersectionSize m [] k = k"
| "intersectionSize m (b # bs) k =
     (if 0 < m b then intersectionSize (m(b := m b - 1)) bs (k + 1)
      else intersectionSize m bs k)"

definition dice :: "string \<Rightarrow> string \<Rightarrow> jsnum" where
  "dice first second =
     (let a = filter (\<lambda>c. \<not> isWhite c) first;
          b = filter (\<lambda>c. \<not> isWhite c) second
      in if a = b then Fin 1
         else if length a < 2 \<or> length b < 2 then Fin 0
         else Fin (2 * real (intersectionSize (firstBigrams (bigrams a)) (bigrams b) 0)
                     / real (length a + length b - 2)))"

subsection \<open>A JSON decoder\<close>

text \<open>
  \<^verbatim>\<open>JSON.parse\<close> on a text of 8-bit characters: white space, the literals, numbers,
  strings with their escapes, arrays and objects; a text that is not JSON is rejected.
  The recursion into arrays and objects is bounded by a counter that the text's length
  always covers. A \<^verbatim>\<open>\u\<close> escape is read as the character with that code modulo 256,
  and a key that occurs twice keeps its last value. Every rejection carries the same
  message; the wording of the real one depends on the engine.
\<close>

definition isJsonWs :: "char \<Rightarrow> bool" where
  "isJsonWs c = (of_char c \<in> {9, 10, 13, 32 :: nat})"

definition hexVal :: "char \<Rightarrow> nat option" where
  "hexVal c =
     (let n = of_char c :: nat
      in if 48 \<le> n \<and> n \<le> 57 then Some (n - 48)
         else if 97 \<le> n \<and> n \<le> 102 then Some (n - 87)
         else if 65 \<le> n \<and> n \<le> 70 then Some (n - 55)
         else None)"

definition unescape :: "char \<Rightarrow> char option" where
  "unescape e =
     map_of [(CHR ''\"'', CHR ''\"''), (CHR 0x5C, CHR 0x5C), (CHR ''/'', CHR ''/''),
             (CHR ''b'', CHR 0x08), (CHR ''f'', CHR 0x0C), (CHR ''n'', CHR 0x0A),
             (CHR ''r'', CHR 0x0D), (CHR ''t'', CHR 0x09)] e"

fun json_chars :: "string \<Rightarrow> string \<Rightarrow> (string \<times> string) option" where
  "json_chars acc [] = None"
| "json_chars acc (c # cs) =
     (if c = CHR ''\"'' then Some (acc, cs)
      else if c = CHR 0x5C then
        (case cs of
           [] \<Rightarrow> None
         | e # r \<Rightarrow>
             if e = CHR ''u'' then
               (case r of
                  h1 # h2 # h3 # h4 # r' \<Rightarrow>
                    (case (hexVal h1, hexVal h2, hexVal h3, hexVal h4) of
                       (Some a, Some b, Some c, Some d) \<Rightarrow>
                         json_chars (acc @ [char_of (((a * 16 + b) * 16 + c) * 16 + d)]) r'
                     | _ \<Rightarrow> None)
                | _ \<Rightarrow> None)
             else (case unescape e of
                     None \<Rightarrow> None
                   | Some x \<Rightarrow> json_chars (acc @ [x]) r))
      else if (of_char c :: nat) < 32 then None
      else json_chars (acc @ [c]) cs)"

definition json_number :: "string \<Rightarrow> (jsnum \<times> string) option" where
  "json_number cs =
     (let neg = (case cs of [] \<Rightarrow> False | c # r \<Rightarrow> c = CHR ''-'');
          r0 = (if neg then tl cs else cs);
          ip = takeWhile isDigit r0;
          r1 = dropWhile isDigit r0;
          hasFrac = (case r1 of [] \<Rightarrow> False | c # r \<Rightarrow> c = CHR ''.'');
          fp = (if hasFrac then takeWhile isDigit (tl r1) else []);
          r2 = (if hasFrac then dropWhile isDigit (tl r1) else r1);
          hasExp = (case r2 of [] \<Rightarrow> False | c # r \<Rightarrow> c = CHR ''e'' \<or> c = CHR ''E'');
          r3 = (if hasExp then tl r2 else r2);
          eneg = (case r3 of [] \<Rightarrow> False | c # r \<Rightarrow> hasExp \<and> c = CHR ''-'');
          epos = (case r3 of [] \<Rightarrow> False | c # r \<Rightarrow> hasExp \<and> c = CHR ''+'');
          r4 = (if eneg \<or> epos then tl r3 else r3);
          ed = (if hasExp then takeWhile isDigit r4 else []);
          r5 = (if hasExp then dropWhile isDigit r4 else r2);
          x = scale10 (real (digitsVal ip) + real (digitsVal fp) / 10 ^ length fp)
                (if eneg then - int (digitsVal ed) else int (digitsVal ed))
      in if ip = [] \<or> (1 < length ip \<and> hd ip = CHR ''0'') then None
         else if hasFrac \<and> fp = [] then None
         else if hasExp \<and> ed = [] then None
         else Some (Fin (if neg then - x else x), r5))"

definition store_member :: "string \<Rightarrow> jsval \<Rightarrow> (string \<times> jsval) list \<Rightarrow> (string \<times> jsval) list" where
  "store_member k v kvs =
     (if k \<in> fst ` set kvs then map (\<lambda>(k', v'). if k' = k then (k', v) else (k', v')) kvs
      else kvs @ [(k, v)])"

fun json_value :: "nat \<Rightarrow> string \<Rightarrow> (jsval \<times> string) option"
  and json_elements :: "nat \<Rightarrow> jsval list \<Rightarrow> string \<Rightarrow> (jsval list \<times> string) option"
  and json_members ::
    "nat \<Rightarrow> (string \<times> jsval) list \<Rightarrow> string \<Rightarrow> ((string \<times> jsval) list \<times> string) option"
where
  "json_value 0 cs = None"
| "json_value (Suc n) cs =
     (case dropWhile isJsonWs cs of
        [] \<Rightarrow> None
      | c # r \<Rightarrow>
          if c = CHR ''{'' then
            (case dropWhile isJsonWs r of
               [] \<Rightarrow> None
             | c' # r' \<Rightarrow>
                 if c' = CHR ''}'' then Some (JObj [], r')
                 else (case json_members n [] (c' # r') of
                         None \<Rightarrow> None
                       | Some (kvs, r'') \<Rightarrow> Some (JObj kvs, r'')))
          else if c = CHR ''['' then
            (case dropWhile isJsonWs r of
               [] \<Rightarrow> None
             | c' # r' \<Rightarrow>
                 if c' = CHR '']'' then Some (JArr [], r')
                 else (case json_elements n [] (c' # r') of
                         None \<Rightarrow> None
                       | Some (vs, r'') \<Rightarrow> Some (JArr vs, r'')))
          else if c = CHR ''\"'' then
            (case json_chars [] r of
               None \<Rightarrow> None
             | Some (s, r') \<Rightarrow> Some (JStr s, r'))
          else if isPrefixOf ''true'' (c # r) then Some (JBool True, drop 4 (c # r))
          else if isPrefixOf ''false'' (c # r) then Some (JBool False, drop 5 (c # r))
          else if isPrefixOf ''null'' (c # r) then Some (JNull, drop 4 (c # r))
          else (case json_number (c # r) of
                  None \<Rightarrow> None
                | Some (x, r') \<Rightarrow> Some (JNum x, r')))"
| "json_elements 0 acc cs = None"
| "json_elements (Suc n) acc cs =
     (case json_value n cs of
        None \<Rightarrow> None
      | Some (v, r) \<Rightarrow>
          (case dropWhile isJsonWs r of
             [] \<Rightarrow> None
           | c # r' \<Rightarrow>
               if c = CHR '','' then json_elements n (acc @ [v]) r'
               else if c = CHR '']'' then Some (acc @ [v], r')
               else None))"
| "json_members 0 acc cs = None"
| "json_members (Suc n) acc cs =
     (case dropWhile isJsonWs cs of
        [] \<Rightarrow> None
      | c # r \<Rightarrow>
          if c = CHR ''\"'' then
            (case json_chars [] r of
               None \<Rightarrow> None
             | Some (k, r1) \<Rightarrow>
                 (case dropWhile isJsonWs r1 of
                    [] \<Rightarrow> None
                  | c1 # r2 \<Rightarrow>
                      if c1 = CHR '':'' then
                        (case json_value n r2 of
                           None \<Rightarrow> None
                         | Some (v, r3) \<Rightarrow>
                             (case dropWhile isJsonWs r3 of
                                [] \<Rightarrow> None
                              | c2 # r4 \<Rightarrow>
                                  if c2 = CHR '','' then json_members n (store_member k v acc) r4
                                  else if c2 = CHR ''}'' then Some (store_member k v acc, r4)
                                  else None))
                      else None))
          else None)"

definition JSON_parse_text :: "string \<Rightarrow> string + jsval" where
  "JSON_parse_text s =
     (case json_value (Suc (Suc (length s + length s))) s of
        None \<Rightarrow> Inl ''Unexpected token in JSON''
      | Some (v, r) \<Rightarrow>
          if dropWhile isJsonWs r = [] then Inr v else Inl ''Unexpected token in JSON'')"

subsection \<open>An in-memory songs table with fault injection\<close>

text \<open>
  The table holds the stored songs; \<open>inserts_done\<close> counts the insert calls, and the
  calls whose number is in \<open>failing\<close> fail as a whole. A successful insert stores
  every row and returns them in input order with fresh identifiers.
\<close>

record mem_db =
  stored :: "song list"
  inserts_done :: nat
  failing :: "nat list"

definition text_of :: "jsval \<Rightarrow> string" where
  "text_of v = (case v of JStr s \<Rightarrow> s | _ \<Rightarrow> [])"

definition mem_select :: "mem_db \<Rightarrow> sb_result" where
  "mem_select d = \<lparr>data = Some (stored d), error = None\<rparr>"

definition mem_insert :: "mem_db \<Rightarrow> row list \<Rightarrow> sb_result \<times> mem_db" where
  "mem_insert d rows =
     (if inserts_done d \<in> set (failing d)
      then (\<lparr>data = None, error = Some \<lparr>message = ''insert failed''\<rparr>\<rparr>,
            d\<lparr>inserts_done := Suc (inserts_done d)\<rparr>)
      else
        (let new = map (\<lambda>(k, r). \<lparr>song_id = length (stored d) + k,
                                    returned_song_name = text_of (song_name r)\<rparr>)
                     (enumerate 0 rows)
         in (\<lparr>data = Some new, error = None\<rparr>,
             d\<lparr>stored := stored d @ new, inserts_done := Suc (inserts_done d)\<rparr>)))"

text \<open>The collaborators together.\<close>

definition mem_env :: "mem_db env" where
  "mem_env =
     \<lparr>JSON_parse = JSON_parse_text,
      compareTwoStrings = dice,
      now = ''2024-01-01T00:00:00.000Z'',
      select_songs = mem_select,
      insert_songs = mem_insert\<rparr>"

definition mem_world :: "song list \<Rightarrow> nat list \<Rightarrow> mem_db world" where
  "mem_world songs fl = \<lparr>db = \<lparr>stored = songs, inserts_done = 0, failing = fl\<rparr>, calls = []\<rparr>"

text \<open>A well-formed candidate with structured content.\<close>

definition candidate :: "string \<Rightarrow> jsval" where
  "candidate name =
     JObj [(''song_name'', JStr name),
           (''main_stanza'', JObj [(''1'', JStr ''la'')]),
           (''stanzas'', JArr [JObj [(''2'', JStr ''la la'')]])]"

definition strict :: "string \<Rightarrow> query" where
  "strict t = \<lparr>allowSimilar = Some ''false'', similarity = Some t\<rparr>"

definition permissive :: query where
  "permissive = \<lparr>allowSimilar = None, similarity = None\<rparr>"

text \<open>The row the handler builds from \<open>candidate name\<close> under \<open>mem_env\<close>.\<close>

definition candidate_row :: "string \<Rightarrow> row" where
  "candidate_row name =
     \<lparr>song_name = JStr name,
      main_stanza = JObj [(''1'', JStr ''la'')],
      stanzas = JArr [JObj [(''2'', JStr ''la la'')]],
      created_at = JStr ''2024-01-01T00:00:00.000Z'',
      last_updated_at = JStr ''2024-01-01T00:00:00.000Z'',
      created_by = JStr ''System'',
      last_updated_by = JStr []\<rparr>"

text \<open>The fields the scan reads from \<open>candidate name\<close>.\<close>

definition candidate_fields :: "string \<Rightarrow> jsval \<times> jsval \<times> jsval" where
  "candidate_fields name =
     (JStr name, JObj [(''1'', JStr ''la'')], JArr [JObj [(''2'', JStr ''la la'')]])"

text \<open>A stored song and a payload with a near-duplicate of an earlier record and a
  near-duplicate of the stored song.\<close>

definition stored_songs :: "song list" where
  "stored_songs = [\<lparr>song_id = 7, returned_song_name = ''Be Thou My Vision''\<rparr>]"

definition hymns :: "jsval list" where
  "hymns = [candidate ''Amazing Grace'', candidate ''Amazing Grase'',
            candidate ''Be Thou my Vision'', candidate ''How Great Thou Art'']"

text \<open>A record whose \<^verbatim>\<open>main_stanza\<close> is the text \<^verbatim>\<open>{\<close>, which is no JSON.\<close>

definition broken_song :: jsval where
  "broken_song =
     JObj [(''song_name'', JStr ''Rock of Ages''),
           (''main_stanza'', JStr ''{''),
           (''stanzas'', JArr [JStr ''la''])]"

text \<open>A well-formed candidate under the alias keys, with serialized content.\<close>

definition serialized_candidate :: "string \<Rightarrow> jsval" where
  "serialized_candidate name =
     JObj [(''songName'', JStr name),
           (''mainStanza'', JStr ''{\"1\": \"la\"}''),
           (''stanzas'', JStr ''[{\"2\": \"la la\"}]'')]"

section \<open>The payload guard\<close>

lemma payload_of_JArr_iff:
  "payload_of b = JArr xs \<longleftrightarrow>
     (b = JArr xs \<or> (\<exists>kvs. b = JObj kvs \<and> map_of kvs ''songs'' = Some (JArr xs)))"
  by (cases b) (auto simp: payload_of_def opt_prop_def split: option.splits)

text \<open>
  Claim C9. A body that is neither a non-empty array nor an object holding a non-empty
  array under \<^verbatim>\<open>songs\<close> is answered with status 400 and an error body, so with no
  outcome of any record; the world is the one before the request: no call was made to
  the database, which is unchanged.
\<close>

theorem bulkImport_rejects_malformed_body:
  assumes "\<not> (\<exists>xs. xs \<noteq> [] \<and>
              (b = JArr xs \<or> (\<exists>kvs. b = JObj kvs \<and> map_of kvs ''songs'' = Some (JArr xs))))"
  shows "bulkImport env q b w =
           (Response 400 (ErrorBody ''Body must be a non-empty array or { songs: [...] }''), w)"
proof (cases "payload_of b")
  case (JArr xs)
  with assms have "xs = []" by (auto simp: payload_of_JArr_iff)
  with JArr show ?thesis by (simp add: bulkImport_def jsonError_def)
qed (simp_all add: bulkImport_def jsonError_def)

theorem bulkImport_rejects_malformed_body_witness:
  "bulkImport mem_env permissive (JArr []) (mem_world [] []) =
     (Response 400 (ErrorBody ''Body must be a non-empty array or { songs: [...] }''),
      mem_world [] [])
   \<and> bulkImport mem_env permissive (JObj [(''songs'', JStr ''x'')]) (mem_world [] []) =
     (Response 400 (ErrorBody ''Body must be a non-empty array or { songs: [...] }''),
      mem_world [] [])
   \<and> calls (mem_world [] []) = []"
proof -
  have a: "bulkImport mem_env permissive (JArr []) (mem_world [] []) =
     (Response 400 (ErrorBody ''Body must be a non-empty array or { songs: [...] }''),
      mem_world [] [])"
    by (rule bulkImport_rejects_malformed_body) simp
  have b: "bulkImport mem_env permissive (JObj [(''songs'', JStr ''x'')]) (mem_world [] []) =
     (Response 400 (ErrorBody ''Body must be a non-empty array or { songs: [...] }''),
      mem_world [] [])"
    by (rule bulkImport_rejects_malformed_body) simp
  show ?thesis using a b by (simp add: mem_world_def)
qed

section \<open>What the two loops compute\<close>

lemma scan_step_cases:
  assumes "scan_step env allow t ex i raw st = Inr st'"
  obtains
    (invalid) f where "read_fields raw = Inr f" "missing_fields f"
      "st' = st\<lparr>results := results st @ [invalid_outcome i (fst f)]\<rparr>"
  | (skipped) f where "read_fields raw = Inr f" "\<not> missing_fields f"
      "blockedBySimilarity env allow t ex (acceptedNames st) (fst f) = Inr True"
      "st' = st\<lparr>results := results st @ [skipped_outcome i (fst f) t]\<rparr>"
  | (accepted) f r where "read_fields raw = Inr f" "\<not> missing_fields f"
      "blockedBySimilarity env allow t ex (acceptedNames st) (fst f) = Inr False"
      "build_row env raw f = Inr r"
      "st' = st\<lparr>toInsert := toInsert st @ [\<lparr>c_index = i, c_row = r\<rparr>],
                acceptedNames := acceptedNames st @ [fst f]\<rparr>"
  using assms unfolding scan_step_def
  by (auto split: sum.splits if_splits)

lemma build_row_song_name: "build_row env raw f = Inr r \<Longrightarrow> song_name r = fst f"
  by (auto simp: build_row_def split: prod.splits sum.splits)

lemma scan_append:
  "scan env allow t ex i (xs @ ys) st =
     (case scan env allow t ex i xs st of
        Inl e \<Rightarrow> Inl e
      | Inr st1 \<Rightarrow> scan env allow t ex (i + length xs) ys st1)"
  by (induction xs arbitrary: i st) (auto split: sum.splits)

lemma scan_shape:
  assumes "scan env allow t ex i payload st = Inr st'"
  shows "\<exists>R I. results st' = results st @ R \<and> toInsert st' = toInsert st @ I
           \<and> acceptedNames st' = acceptedNames st @ map (\<lambda>c. song_name (c_row c)) I
           \<and> mset (map index R) + mset (map c_index I) = mset [i..<i + length payload]
           \<and> (\<forall>r\<in>set R. status r = ''invalid'' \<or> status r = ''skipped_conflict'')"
  using assms
proof (induction payload arbitrary: i st)
  case Nil
  then show ?case by simp
next
  case (Cons raw rest)
  from Cons.prems obtain st1 where
    step: "scan_step env allow t ex i raw st = Inr st1" and
    rest: "scan env allow t ex (Suc i) rest st1 = Inr st'"
    by (auto split: sum.splits)
  from Cons.IH[OF rest] obtain R I where
    R: "results st' = results st1 @ R" and I: "toInsert st' = toInsert st1 @ I" and
    A: "acceptedNames st' = acceptedNames st1 @ map (\<lambda>c. song_name (c_row c)) I" and
    M: "mset (map index R) + mset (map c_index I) = mset [Suc i..<Suc i + length rest]" and
    S: "\<forall>r\<in>set R. status r = ''invalid'' \<or> status r = ''skipped_conflict''"
    by blast
  have up: "[i..<Suc (i + length rest)] = i # [Suc i..<Suc (i + length rest)]"
    by (rule upt_conv_Cons) simp
  from step show ?case
  proof (cases rule: scan_step_cases)
    case (invalid f)
    show ?thesis
      apply (rule exI[of _ "invalid_outcome i (fst f) # R"], rule exI[of _ I])
      using R I A M S invalid up by (simp del: mset_upt upt_Suc add: invalid_outcome_def)
  next
    case (skipped f)
    show ?thesis
      apply (rule exI[of _ "skipped_outcome i (fst f) t # R"], rule exI[of _ I])
      using R I A M S skipped up by (simp del: mset_upt upt_Suc add: skipped_outcome_def)
  next
    case (accepted f r)
    show ?thesis
      apply (rule exI[of _ R], rule exI[of _ "\<lparr>c_index = i, c_row = r\<rparr> # I"])
      using R I A M S accepted up build_row_song_name[OF accepted(4)] by (simp del: mset_upt upt_Suc)
  qed
qed

lemma mark_created_same_length:
  "length d = length chunk \<Longrightarrow>
     mark_created chunk d rs = Inr (rs @ map2 created_outcome chunk d)"
  by (induction chunk d rs rule: mark_created.induct) auto

lemma chunks_Nil [simp]: "chunks [] = []"
  by (simp add: chunks.simps)

lemma chunks_nonempty: "xs \<noteq> [] \<Longrightarrow> chunks xs = take BATCH xs # chunks (drop BATCH xs)"
  by (subst chunks.simps) simp

lemma writer_result_Nil: "writer_result env [] rs cc w = (Inr (rs, cc), w)"
  by (simp add: writer_result_def)

lemma writer_result_step:
  assumes "items \<noteq> []"
  shows "writer_result env items rs cc w =
     writer_result env (drop BATCH items)
       (rs @ chunk_outcomes (take BATCH items)
               (fst (insert_songs env (db w) (map c_row (take BATCH items)))))
       (cc + created_in (fst (insert_songs env (db w) (map c_row (take BATCH items)))))
       \<lparr>db = snd (insert_songs env (db w) (map c_row (take BATCH items))),
        calls = calls w @ [InsertSongs (map c_row (take BATCH items))
                  (fst (insert_songs env (db w) (map c_row (take BATCH items))))]\<rparr>"
  by (simp add: writer_result_def chunks_nonempty[OF assms] Let_def)

lemma insert_loop_atomic:
  "atomic_inserts env \<Longrightarrow>
     insert_loop env ti off rs cc w = writer_result env (drop off ti) rs cc w"
proof (induction env ti off rs cc w rule: insert_loop.induct)
  case (1 env ti off rs cc w)
  note at = "1.prems"
  show ?case
  proof (cases "off < length ti")
    case False
    then show ?thesis by (simp add: insert_loop.simps writer_result_Nil)
  next
    case True
    define chunk where "chunk = slice ti off (off + BATCH)"
    define call where "call = sb_insert env w (map c_row chunk)"
    define res where "res = fst (insert_songs env (db w) (map c_row chunk))"
    define d' where "d' = snd (insert_songs env (db w) (map c_row chunk))"
    have chunk_take: "chunk = take BATCH (drop off ti)"
      by (simp add: chunk_def slice_def)
    have ne: "drop off ti \<noteq> []" using True by simp
    have dd: "drop BATCH (drop off ti) = drop (off + BATCH) ti"
      by (simp add: add.commute)
    have call_eq: "call = (res, \<lparr>db = d', calls = calls w @ [InsertSongs (map c_row chunk) res]\<rparr>)"
      by (simp add: call_def sb_insert_def res_def d'_def split: prod.splits)
    have wr: "writer_result env (drop off ti) rs cc w =
        writer_result env (drop (off + BATCH) ti) (rs @ chunk_outcomes chunk res)
          (cc + created_in res) (snd call)"
      by (simp del: drop_drop add: writer_result_step[OF ne] dd chunk_take[symmetric]
          res_def[symmetric] d'_def[symmetric] call_eq)
    show ?thesis
    proof (cases "error res")
      case (Some err)
      have e: "error (fst call) = Some err" using Some by (simp add: call_eq)
      have step: "insert_loop env ti off rs cc w =
                  insert_loop env ti (off + BATCH) (rs @ map (failed_outcome err) chunk) cc (snd call)"
        using True e
        by (subst insert_loop.simps) (simp add: chunk_def[symmetric] call_def[symmetric] Let_def)
      have ih: "insert_loop env ti (off + BATCH) (rs @ map (failed_outcome err) chunk) cc (snd call)
                = writer_result env (drop (off + BATCH) ti) (rs @ map (failed_outcome err) chunk) cc (snd call)"
        by (rule "1.IH"(2)[OF True chunk_def call_def e at])
      show ?thesis
        unfolding step ih wr using Some by (simp add: chunk_outcomes_def created_in_def)
    next
      case None
      from at None obtain d where d: "data res = Some d" "length d = length chunk"
        unfolding atomic_inserts_def res_def by (metis length_map)
      have e: "error (fst call) = None" "data (fst call) = Some d"
        using None d by (simp_all add: call_eq)
      have mc: "mark_created chunk d rs = Inr (rs @ map2 created_outcome chunk d)"
        by (rule mark_created_same_length) (rule d(2))
      have step: "insert_loop env ti off rs cc w =
                  insert_loop env ti (off + BATCH) (rs @ map2 created_outcome chunk d)
                    (cc + length d) (snd call)"
        using True e mc
        by (subst insert_loop.simps) (simp add: chunk_def[symmetric] call_def[symmetric] Let_def)
      have ih: "insert_loop env ti (off + BATCH) (rs @ map2 created_outcome chunk d)
                    (cc + length d) (snd call)
                = writer_result env (drop (off + BATCH) ti) (rs @ map2 created_outcome chunk d)
                    (cc + length d) (snd call)"
        by (rule "1.IH"(1)[OF True chunk_def call_def e mc at])
      show ?thesis
        unfolding step ih wr using None d by (simp add: chunk_outcomes_def created_in_def)
    qed
  qed
qed

lemma chunk_outcomes_length:
  "whole_chunk res (length chunk) \<Longrightarrow> length (chunk_outcomes chunk res) = length chunk"
  by (auto simp: chunk_outcomes_def whole_chunk_def split: option.splits)

lemma index_created:
  "length chunk = length xs \<Longrightarrow> map index (map2 created_outcome chunk xs) = map c_index chunk"
  by (induction chunk xs rule: list_induct2) (simp_all add: created_outcome_def)

lemma index_failed: "map index (map (failed_outcome err) chunk) = map c_index chunk"
  by (simp add: failed_outcome_def)

lemma chunk_outcomes_index:
  "whole_chunk res (length chunk) \<Longrightarrow> map index (chunk_outcomes chunk res) = map c_index chunk"
  unfolding chunk_outcomes_def whole_chunk_def
  by (cases "error res") (auto simp: index_created index_failed simp del: map_map)

lemma chunk_outcomes_status:
  "whole_chunk res (length chunk) \<Longrightarrow> r \<in> set (chunk_outcomes chunk res) \<Longrightarrow>
     status r = (if error res = None then ''created'' else ''failed'')"
  by (auto simp: chunk_outcomes_def whole_chunk_def failed_outcome_def created_outcome_def
      set_zip split: option.splits)

lemma run_inserts_length [simp]: "length (run_inserts env d rowss) = length rowss"
  by (induction rowss arbitrary: d) auto

lemma run_inserts_nth:
  "j < length rowss \<Longrightarrow> \<exists>d'. run_inserts env d rowss ! j = fst (insert_songs env d' (rowss ! j))"
proof (induction rowss arbitrary: d j)
  case Nil
  then show ?case by simp
next
  case (Cons rows rest)
  show ?case
  proof (cases j)
    case 0
    then show ?thesis by auto
  next
    case (Suc k)
    with Cons.prems have "k < length rest" by simp
    from Cons.IH[OF this] Suc show ?thesis by simp
  qed
qed

lemma atomic_whole_chunk:
  "atomic_inserts env \<Longrightarrow> whole_chunk (fst (insert_songs env d rows)) (length rows)"
  by (simp add: atomic_inserts_def whole_chunk_def)

lemma run_inserts_whole:
  assumes "atomic_inserts env" "j < length cks"
  shows "whole_chunk (run_inserts env d (map (map c_row) cks) ! j) (length (cks ! j))"
proof -
  from run_inserts_nth[of j "map (map c_row) cks" env d] assms(2) obtain d' where
    "run_inserts env d (map (map c_row) cks) ! j = fst (insert_songs env d' (map c_row (cks ! j)))"
    by auto
  then show ?thesis using atomic_whole_chunk[OF assms(1), of d' "map c_row (cks ! j)"] by simp
qed

lemma concat_chunks: "concat (chunks xs) = xs"
proof (induction xs rule: chunks.induct)
  case (1 xs)
  show ?case
  proof (cases "xs = []")
    case True then show ?thesis by simp
  next
    case False
    with 1 show ?thesis by (simp add: chunks_nonempty)
  qed
qed

lemma writer_index:
  assumes "atomic_inserts env"
  shows "map index (concat (map2 chunk_outcomes (chunks items)
            (run_inserts env d (map (map c_row) (chunks items))))) = map c_index items"
proof (induction items arbitrary: d rule: chunks.induct)
  case (1 xs)
  show ?case
  proof (cases "xs = []")
    case True then show ?thesis by simp
  next
    case False
    have w: "whole_chunk (fst (insert_songs env d (map c_row (take BATCH xs)))) (length (take BATCH xs))"
      using atomic_whole_chunk[OF assms, of d "map c_row (take BATCH xs)"] by simp
    have "map c_index xs = map c_index (take BATCH xs) @ map c_index (drop BATCH xs)"
      by (simp flip: map_append)
    then show ?thesis
      using "1.IH"[OF False] chunk_outcomes_index[OF w]
      by (simp add: chunks_nonempty[OF False])
  qed
qed

lemma bulkImport_BulkBody:
  assumes "bulkImport env q b w = (Response code (BulkBody sm rs), w')"
  obtains payload st where "payload_of b = JArr payload" "payload \<noteq> []"
    "error (select_songs env (db w)) = None" "scanned env q w payload = Inr st"
  using assms
  unfolding bulkImport_def scanned_def sb_select_def jsonError_def sbAssert_def catch_handler_def
  by (auto simp: Let_def split: jsval.splits if_splits option.splits sum.splits prod.splits)

lemma bulkImport_atomic:
  assumes "atomic_inserts env" "payload_of b = JArr payload" "payload \<noteq> []"
    "error (select_songs env (db w)) = None" "scanned env q w payload = Inr st"
  shows "bulkImport env q b w =
     (reconcile (length payload)
        (results st @ concat (map2 chunk_outcomes (chunks (toInsert st))
           (run_inserts env (db w) (map (map c_row) (chunks (toInsert st))))))
        (sum_list (map created_in (run_inserts env (db w) (map (map c_row) (chunks (toInsert st)))))),
      \<lparr>db = final_db env (db w) (map (map c_row) (chunks (toInsert st))),
       calls = calls w @ SelectSongs (select_songs env (db w)) #
                 map2 InsertSongs (map (map c_row) (chunks (toInsert st)))
                   (run_inserts env (db w) (map (map c_row) (chunks (toInsert st))))\<rparr>)"
  using assms(2-5)
  unfolding bulkImport_def scanned_def sb_select_def
  by (simp add: Let_def insert_loop_atomic[OF assms(1)] writer_result_def)

lemma sorted_by_index:
  assumes "mset (map index rs) = mset [0..<n]"
  shows "map index (sort_key index rs) = [0..<n]"
proof -
  have "sort [0..<n] = map index (sort_key index rs)"
    using assms by (intro properties_for_sort) simp_all
  then show ?thesis by (simp add: sorted_sort_id)
qed

lemma reconcile_BulkBody:
  "reconcile n rs0 cc = Response code (BulkBody sm rs) \<Longrightarrow>
     rs = sort_key index rs0 \<and> created sm = cc \<and> requested sm = n
     \<and> skipped_conflict sm = count_status ''skipped_conflict'' rs
     \<and> invalid sm = count_status ''invalid'' rs
     \<and> failed sm = count_status ''failed'' rs
     \<and> code = (if 0 < cc then 201 else 200)"
  by (auto simp: reconcile_def Let_def)

lemma nth_by_index:
  assumes "map index rs = [0..<n]" "r \<in> set rs"
  shows "rs ! index r = r \<and> index r < n"
proof -
  from assms(2) obtain k where k: "k < length rs" "rs ! k = r"
    by (auto simp: in_set_conv_nth)
  have len: "length rs = n" using assms(1) by (metis length_map length_upt minus_nat.diff_0)
  have "index (rs ! k) = map index rs ! k" using k by simp
  also have "\<dots> = k" using k len by (simp add: assms(1))
  finally show ?thesis using k len by simp
qed

lemma bulkImport_results:
  assumes at: "atomic_inserts env"
    and p: "payload_of b = JArr payload"
    and r: "bulkImport env q b w = (Response code (BulkBody sm rs), w')"
  obtains st where "scanned env q w payload = Inr st"
    "rs = sort_key index (results st @ concat (map2 chunk_outcomes (chunks (toInsert st))
           (run_inserts env (db w) (map (map c_row) (chunks (toInsert st))))))"
    "map index rs = [0..<length payload]"
    "created sm = sum_list (map created_in
           (run_inserts env (db w) (map (map c_row) (chunks (toInsert st)))))"
    "requested sm = length payload"
    "skipped_conflict sm = count_status ''skipped_conflict'' rs"
    "invalid sm = count_status ''invalid'' rs"
    "failed sm = count_status ''failed'' rs"
    "w' = \<lparr>db = final_db env (db w) (map (map c_row) (chunks (toInsert st))),
       calls = calls w @ SelectSongs (select_songs env (db w)) #
                 map2 InsertSongs (map (map c_row) (chunks (toInsert st)))
                   (run_inserts env (db w) (map (map c_row) (chunks (toInsert st))))\<rparr>"
proof -
  from r obtain payload' st where q: "payload_of b = JArr payload'" "payload' \<noteq> []"
    "error (select_songs env (db w)) = None" "scanned env q w payload' = Inr st"
    by (rule bulkImport_BulkBody)
  with p have pe: "payload' = payload" by simp
  note eq = bulkImport_atomic[OF at q]
  let ?N = "concat (map2 chunk_outcomes (chunks (toInsert st))
           (run_inserts env (db w) (map (map c_row) (chunks (toInsert st)))))"
  from r eq have rec: "reconcile (length payload) (results st @ ?N)
      (sum_list (map created_in (run_inserts env (db w) (map (map c_row) (chunks (toInsert st))))))
      = Response code (BulkBody sm rs)"
    and w': "w' = \<lparr>db = final_db env (db w) (map (map c_row) (chunks (toInsert st))),
       calls = calls w @ SelectSongs (select_songs env (db w)) #
                 map2 InsertSongs (map (map c_row) (chunks (toInsert st)))
                   (run_inserts env (db w) (map (map c_row) (chunks (toInsert st))))\<rparr>"
    by (simp_all add: pe)
  note rb = reconcile_BulkBody[OF rec]
  from scan_shape[OF q(4)[unfolded scanned_def]] obtain R I where
    "results st = R" "toInsert st = I"
    "mset (map index R) + mset (map c_index I) = mset [0..<length payload]"
    by (auto simp: init_state_def pe)
  then have "mset (map index (results st @ ?N)) = mset [0..<length payload]"
    using writer_index[OF at, where d = "db w" and items = "toInsert st"] by (simp del: mset_upt mset_map add: mset_map[symmetric])
  then have "map index rs = [0..<length payload]"
    using rb by (simp add: sorted_by_index)
  with q(4) rb w' show ?thesis by (intro that[of st]) (simp_all add: pe)
qed

lemma some_similar_Inr:
  "some_similar env t name ns = Inr b \<Longrightarrow> b = (\<exists>n\<in>set ns. similar_to env t name n)"
  by (induction ns) (auto simp: similar_to_def split: sum.splits if_splits)

lemma blocked_Inr:
  assumes "blockedBySimilarity env allow t ex acc name = Inr b"
  shows "b = (\<not> allow \<and> (\<exists>n\<in>set ex \<union> set acc. similar_to env t name n))"
proof (cases allow)
  case True
  with assms show ?thesis by (simp add: blockedBySimilarity_def)
next
  case False
  with assms obtain b1 b2 where
    "some_similar env t name ex = Inr b1" "some_similar env t name acc = Inr b2" "b = (b1 \<or> b2)"
    by (auto simp: blockedBySimilarity_def split: sum.splits)
  with False some_similar_Inr[of env t name ex b1] some_similar_Inr[of env t name acc b2]
  show ?thesis by auto
qed

lemma scan_nth:
  assumes "scan env allow t ex i payload st = Inr st'" "k < length payload"
  obtains s1 s2 where
    "scan env allow t ex i (take k payload) st = Inr s1"
    "scan_step env allow t ex (i + k) (payload ! k) s1 = Inr s2"
    "scan env allow t ex (Suc (i + k)) (drop (Suc k) payload) s2 = Inr st'"
proof -
  have "payload = take k payload @ (payload ! k # drop (Suc k) payload)"
    using assms(2) by (simp add: id_take_nth_drop[symmetric])
  then have "scan env allow t ex i (take k payload @ (payload ! k # drop (Suc k) payload)) st = Inr st'"
    using assms(1) by simp
  then show ?thesis
    using assms(2) that
    by (auto simp: scan_append min_def split: sum.splits)
qed

lemma record_fate:
  assumes "scanned env q w payload = Inr st" "k < length payload"
  obtains s1 s2 where
    "scanned env q w (take k payload) = Inr s1"
    "scan_step env (allowSimilar_of q) (similarity_of q)
       (existingNames_of (select_songs env (db w))) k (payload ! k) s1 = Inr s2"
    "set (results s2) \<subseteq> set (results st)"
    "set (toInsert s2) \<subseteq> set (toInsert st)"
proof -
  from assms obtain s1 s2 where s:
    "scanned env q w (take k payload) = Inr s1"
    "scan_step env (allowSimilar_of q) (similarity_of q)
       (existingNames_of (select_songs env (db w))) k (payload ! k) s1 = Inr s2"
    "scan env (allowSimilar_of q) (similarity_of q)
       (existingNames_of (select_songs env (db w))) (Suc k) (drop (Suc k) payload) s2 = Inr st"
    unfolding scanned_def by (auto elim: scan_nth)
  from scan_shape[OF s(3)] have "set (results s2) \<subseteq> set (results st)"
    "set (toInsert s2) \<subseteq> set (toInsert st)" by auto
  with s(1,2) show ?thesis by (rule that)
qed


lemma writer_outcome:
  assumes at: "atomic_inserts env" and j: "j < length cks" and c: "c \<in> set (cks ! j)"
  shows "\<exists>r\<in>set (concat (map2 chunk_outcomes cks (run_inserts env d (map (map c_row) cks)))).
           index r = c_index c \<and>
           status r = (if error (run_inserts env d (map (map c_row) cks) ! j) = None
                       then ''created'' else ''failed'')"
proof -
  let ?ress = "run_inserts env d (map (map c_row) cks)"
  let ?os = "chunk_outcomes (cks ! j) (?ress ! j)"
  have wh: "whole_chunk (?ress ! j) (length (cks ! j))"
    by (rule run_inserts_whole[OF at j])
  from c obtain p where p: "p < length (cks ! j)" "cks ! j ! p = c"
    by (auto simp: in_set_conv_nth)
  have len: "length ?os = length (cks ! j)" by (rule chunk_outcomes_length[OF wh])
  have "index (?os ! p) = map index ?os ! p" using p len by simp
  also have "\<dots> = c_index c" using p by (simp add: chunk_outcomes_index[OF wh])
  finally have i: "index (?os ! p) = c_index c" .
  have m: "?os ! p \<in> set ?os" using p len by simp
  have z: "(cks ! j, ?ress ! j) \<in> set (zip cks ?ress)"
    using j by (auto simp: set_zip)
  have "?os ! p \<in> set (concat (map2 chunk_outcomes cks ?ress))"
    unfolding set_concat set_map
    by (rule UN_I[OF imageI[OF z]]) (simp add: m)
  moreover have "status (?os ! p) = (if error (?ress ! j) = None then ''created'' else ''failed'')"
    by (rule chunk_outcomes_status[OF wh m])
  ultimately show ?thesis using i by blast
qed

lemma kept_scan_outcome:
  assumes at: "atomic_inserts env"
    and p: "payload_of b = JArr payload"
    and r: "bulkImport env q b w = (Response code (BulkBody sm rs), w')"
    and st: "scanned env q w payload = Inr st"
    and m: "x \<in> set (results st)"
  shows "rs ! index x = x"
proof -
  from at p r obtain st' where s: "scanned env q w payload = Inr st'"
    "rs = sort_key index (results st' @ concat (map2 chunk_outcomes (chunks (toInsert st'))
           (run_inserts env (db w) (map (map c_row) (chunks (toInsert st'))))))"
    "map index rs = [0..<length payload]"
    by (rule bulkImport_results)
  with st have "st' = st" by simp
  with s m have "x \<in> set rs" by simp
  with s(3) show ?thesis using nth_by_index by blast
qed

lemma item_outcome:
  assumes at: "atomic_inserts env"
    and p: "payload_of b = JArr payload"
    and r: "bulkImport env q b w = (Response code (BulkBody sm rs), w')"
    and st: "scanned env q w payload = Inr st"
    and j: "j < length (chunks (toInsert st))"
    and c: "c \<in> set (chunks (toInsert st) ! j)"
  shows "status (rs ! c_index c) =
           (if error (run_inserts env (db w) (map (map c_row) (chunks (toInsert st))) ! j) = None
            then ''created'' else ''failed'')"
proof -
  from at p r obtain st' where s: "scanned env q w payload = Inr st'"
    "rs = sort_key index (results st' @ concat (map2 chunk_outcomes (chunks (toInsert st'))
           (run_inserts env (db w) (map (map c_row) (chunks (toInsert st'))))))"
    "map index rs = [0..<length payload]"
    by (rule bulkImport_results)
  with st have e: "st' = st" by simp
  from writer_outcome[OF at j c, of "db w"] obtain x where
    x: "x \<in> set (concat (map2 chunk_outcomes (chunks (toInsert st))
           (run_inserts env (db w) (map (map c_row) (chunks (toInsert st))))))"
       "index x = c_index c"
       "status x = (if error (run_inserts env (db w) (map (map c_row) (chunks (toInsert st))) ! j) = None
                       then ''created'' else ''failed'')"
    by blast
  from x(1) s(2) e have "x \<in> set rs" by simp
  with s(3) have "rs ! index x = x" using nth_by_index by blast
  with x show ?thesis by simp
qed

lemma scan_shape_from_init:
  assumes "scanned env q w payload = Inr st"
  shows "mset (map index (results st)) + mset (map c_index (toInsert st)) = mset [0..<length payload]"
    and "acceptedNames st = map (\<lambda>c. song_name (c_row c)) (toInsert st)"
    and "\<forall>r\<in>set (results st). status r = ''invalid'' \<or> status r = ''skipped_conflict''"
  using scan_shape[OF assms[unfolded scanned_def]] by (auto simp: init_state_def)

lemma scan_indices_disjoint:
  assumes "scanned env q w payload = Inr st" "r \<in> set (results st)" "c \<in> set (toInsert st)"
  shows "index r \<noteq> c_index c"
proof -
  have "mset (map index (results st) @ map c_index (toInsert st)) = mset [0..<length payload]"
    using scan_shape_from_init(1)[OF assms(1)] by (simp del: mset_upt mset_map)
  then have "distinct (map index (results st) @ map c_index (toInsert st))"
    by (metis distinct_upt mset_eq_imp_distinct_iff)
  with assms(2,3) show ?thesis by (auto simp del: map_map)
qed

lemma writer_outcome_conv:
  assumes at: "atomic_inserts env"
    and r: "r \<in> set (concat (map2 chunk_outcomes cks (run_inserts env d (map (map c_row) cks))))"
  shows "\<exists>j<length cks. (\<exists>c\<in>set (cks ! j). c_index c = index r) \<and>
           status r = (if error (run_inserts env d (map (map c_row) cks) ! j) = None
                       then ''created'' else ''failed'')"
proof -
  let ?ress = "run_inserts env d (map (map c_row) cks)"
  from r obtain ck res where z: "(ck, res) \<in> set (zip cks ?ress)" and m: "r \<in> set (chunk_outcomes ck res)"
    by auto
  from z obtain j where j: "j < length cks" "ck = cks ! j" "res = ?ress ! j"
    by (auto simp: set_zip)
  have wh: "whole_chunk (?ress ! j) (length (cks ! j))"
    by (rule run_inserts_whole[OF at j(1)])
  from m obtain p where p: "p < length (chunk_outcomes ck res)" "chunk_outcomes ck res ! p = r"
    by (auto simp: in_set_conv_nth)
  have len: "length (chunk_outcomes ck res) = length ck"
    using chunk_outcomes_length[OF wh] j by simp
  have "index r = map index (chunk_outcomes ck res) ! p" using p by simp
  also have "\<dots> = c_index (ck ! p)" using p len wh j by (simp add: chunk_outcomes_index)
  finally have "c_index (ck ! p) = index r" by simp
  moreover have "ck ! p \<in> set ck" using p len by simp
  moreover have "status r = (if error (?ress ! j) = None then ''created'' else ''failed'')"
    using chunk_outcomes_status[OF wh] m j by simp
  ultimately show ?thesis using j by blast
qed

lemma scanned_split:
  assumes "scanned env q w payload = Inr st" "k \<le> length payload"
    "scanned env q w (take k payload) = Inr sk"
  shows "scan env (allowSimilar_of q) (similarity_of q)
           (existingNames_of (select_songs env (db w))) k (drop k payload) sk = Inr st"
proof -
  have "scanned env q w (take k payload @ drop k payload) = Inr st" using assms(1) by simp
  moreover have "length (take k payload) = k" using assms(2) by simp
  ultimately show ?thesis
    using assms(3) unfolding scanned_def
    by (simp only: scan_append) simp
qed

lemma scan_shape_indices:
  assumes "scan env allow t ex i payload st = Inr st'"
  shows "\<exists>I. toInsert st' = toInsert st @ I \<and> (\<forall>c\<in>set I. i \<le> c_index c \<and> c_index c < i + length payload)"
proof -
  from scan_shape[OF assms] obtain R :: "outcome list" and I where
    I: "toInsert st' = toInsert st @ I" and
    M: "mset (map index R) + mset (map c_index I) = mset [i..<i + length payload]"
    by blast
  have "\<forall>c\<in>set I. i \<le> c_index c \<and> c_index c < i + length payload"
  proof
    fix c assume "c \<in> set I"
    then have "c_index c \<in># mset (map index R) + mset (map c_index I)" by auto
    then have "c_index c \<in># mset [i..<i + length payload]" by (simp only: M)
    then show "i \<le> c_index c \<and> c_index c < i + length payload" by simp
  qed
  with I show ?thesis by blast
qed

lemma accepted_name_visible:
  assumes st: "scanned env q w payload = Inr st" and k: "k \<le> length payload"
    and sk: "scanned env q w (take k payload) = Inr sk"
    and c: "c \<in> set (toInsert st)" "c_index c < k"
  shows "song_name (c_row c) \<in> set (acceptedNames sk)"
proof -
  from scan_shape_indices[OF scanned_split[OF st k sk]] obtain I where
    I: "toInsert st = toInsert sk @ I" "\<forall>c\<in>set I. k \<le> c_index c" by auto
  with c have "c \<in> set (toInsert sk)" by auto
  then show ?thesis using scan_shape_from_init(2)[OF sk] by simp
qed

lemma step_verdict:
  assumes st: "scanned env q w payload = Inr st" and k: "k < length payload"
    and f: "read_fields (payload ! k) = Inr f" "\<not> missing_fields f"
    and sk: "scanned env q w (take k payload) = Inr sk"
  shows "if \<not> allowSimilar_of q \<and>
            (\<exists>n\<in>set (existingNames_of (select_songs env (db w))) \<union> set (acceptedNames sk).
                similar_to env (similarity_of q) (fst f) n)
         then skipped_outcome k (fst f) (similarity_of q) \<in> set (results st)
         else (\<exists>r. build_row env (payload ! k) f = Inr r \<and> \<lparr>c_index = k, c_row = r\<rparr> \<in> set (toInsert st))"
proof -
  from record_fate[OF st k] obtain s1 s2 where s:
    "scanned env q w (take k payload) = Inr s1"
    "scan_step env (allowSimilar_of q) (similarity_of q)
       (existingNames_of (select_songs env (db w))) k (payload ! k) s1 = Inr s2"
    "set (results s2) \<subseteq> set (results st)"
    "set (toInsert s2) \<subseteq> set (toInsert st)"
    by blast
  with sk have e: "s1 = sk" by simp
  from s(2) show ?thesis
  proof (cases rule: scan_step_cases)
    case (invalid f')
    with f show ?thesis by simp
  next
    case (skipped f')
    with f have "f' = f" by simp
    with skipped s(3) e blocked_Inr[OF skipped(3)] show ?thesis by auto
  next
    case (accepted f' r)
    with f have "f' = f" by simp
    with accepted s(4) e blocked_Inr[OF accepted(3)] show ?thesis by auto
  qed
qed


lemma scanned_prefix:
  assumes "scanned env q w payload = Inr st"
  obtains sk where "scanned env q w (take k payload) = Inr sk"
proof -
  have "scanned env q w (take k payload @ drop k payload) = Inr st" using assms by simp
  then show ?thesis
    using that unfolding scanned_def
    by (simp only: scan_append) (auto split: sum.splits)
qed

lemma scan_indices_bound:
  assumes "scanned env q w payload = Inr st" "c \<in> set (toInsert st)"
  shows "c_index c < length payload"
  using scan_shape_indices[OF assms(1)[unfolded scanned_def]] assms(2)
  by (auto simp: init_state_def)

lemma toInsert_index_inj:
  assumes "scanned env q w payload = Inr st" "c \<in> set (toInsert st)" "c' \<in> set (toInsert st)"
    "c_index c = c_index c'"
  shows "c = c'"
proof -
  have "mset (map index (results st) @ map c_index (toInsert st)) = mset [0..<length payload]"
    using scan_shape_from_init(1)[OF assms(1)] by (simp del: mset_upt mset_map)
  then have "distinct (map index (results st) @ map c_index (toInsert st))"
    by (metis distinct_upt mset_eq_imp_distinct_iff)
  then have "inj_on c_index (set (toInsert st))" by (simp add: distinct_map)
  with assms(2-4) show ?thesis by (auto dest: inj_onD)
qed

lemma accepted_prefix:
  assumes st: "scanned env q w payload = Inr st" and k: "k \<le> length payload"
    and sk: "scanned env q w (take k payload) = Inr sk"
  shows "toInsert sk = filter (\<lambda>c. c_index c < k) (toInsert st)"
proof -
  from scan_shape_indices[OF scanned_split[OF st k sk]] obtain I where
    I: "toInsert st = toInsert sk @ I" "\<forall>c\<in>set I. k \<le> c_index c" by auto
  have "\<forall>c\<in>set (toInsert sk). c_index c < k"
    using scan_indices_bound[OF sk] k by auto
  then have "filter (\<lambda>c. c_index c < k) (toInsert sk) = toInsert sk" by (simp add: filter_id_conv)
  moreover have "filter (\<lambda>c. c_index c < k) I = []" using I(2) by (auto simp: filter_empty_conv)
  ultimately show ?thesis using I(1) by simp
qed

lemma item_origin:
  assumes st: "scanned env q w payload = Inr st" and c: "c \<in> set (toInsert st)"
  shows "\<exists>f sk. read_fields (payload ! c_index c) = Inr f \<and> \<not> missing_fields f
           \<and> song_name (c_row c) = fst f
           \<and> build_row env (payload ! c_index c) f = Inr (c_row c)
           \<and> scanned env q w (take (c_index c) payload) = Inr sk
           \<and> (\<not> allowSimilar_of q \<longrightarrow>
                \<not> (\<exists>n\<in>set (existingNames_of (select_songs env (db w))) \<union> set (acceptedNames sk).
                      similar_to env (similarity_of q) (fst f) n))"
proof -
  have k: "c_index c < length payload" by (rule scan_indices_bound[OF st c])
  from record_fate[OF st k] obtain s1 s2 where s:
    "scanned env q w (take (c_index c) payload) = Inr s1"
    "scan_step env (allowSimilar_of q) (similarity_of q)
       (existingNames_of (select_songs env (db w))) (c_index c) (payload ! c_index c) s1 = Inr s2"
    "set (results s2) \<subseteq> set (results st)"
    "set (toInsert s2) \<subseteq> set (toInsert st)"
    by blast
  from s(2) show ?thesis
  proof (cases rule: scan_step_cases)
    case (invalid f)
    with s(3) have "invalid_outcome (c_index c) (fst f) \<in> set (results st)" by auto
    from scan_indices_disjoint[OF st this c] show ?thesis by (simp add: invalid_outcome_def)
  next
    case (skipped f)
    with s(3) have "skipped_outcome (c_index c) (fst f) (similarity_of q) \<in> set (results st)" by auto
    from scan_indices_disjoint[OF st this c] show ?thesis by (simp add: skipped_outcome_def)
  next
    case (accepted f r)
    with s(4) have m: "\<lparr>c_index = c_index c, c_row = r\<rparr> \<in> set (toInsert st)" by auto
    have "c = \<lparr>c_index = c_index c, c_row = r\<rparr>"
      by (rule toInsert_index_inj[OF st c m]) simp
    then have cr: "c_row c = r" by (metis item.select_convs(2))
    from blocked_Inr[OF accepted(3)]
    have "\<not> allowSimilar_of q \<longrightarrow>
                \<not> (\<exists>n\<in>set (existingNames_of (select_songs env (db w))) \<union> set (acceptedNames s1).
                      similar_to env (similarity_of q) (fst f) n)" by blast
    with accepted(1,2,4) cr s(1) build_row_song_name[OF accepted(4)] show ?thesis by auto
  qed
qed







lemma build_row_decode_failure:
  assumes "(\<exists>s m. fst (snd f) = JStr s \<and> JSON_parse env s = Inl m)
         \<or> (\<exists>s m. snd (snd f) = JStr s \<and> JSON_parse env s = Inl m)"
  shows "\<exists>m. build_row env raw f = Inl (SyntaxError m)"
proof -
  obtain n ms ss where f: "f = (n, ms, ss)" by (cases f) auto
  show ?thesis
  proof (cases "asObj env ms")
    case (Inl e)
    then obtain m where "e = SyntaxError m"
      by (auto simp: asObj_def split: jsval.splits sum.splits)
    with Inl f show ?thesis by (simp add: build_row_def)
  next
    case (Inr m')
    with assms f have "\<exists>s m. ss = JStr s \<and> JSON_parse env s = Inl m"
      by (auto simp: asObj_def split: jsval.splits sum.splits)
    then obtain s m where "ss = JStr s" "JSON_parse env s = Inl m" by blast
    then have "asObj env ss = Inl (SyntaxError m)" by (simp add: asObj_def)
    with Inr f show ?thesis by (simp add: build_row_def)
  qed
qed

lemma scan_permissive_total:
  assumes "\<forall>raw\<in>set payload. \<exists>f. read_fields raw = Inr f \<and>
             (\<not> missing_fields f \<longrightarrow> (\<exists>r. build_row env raw f = Inr r))"
  shows "\<exists>st'. scan env True t ex i payload st = Inr st'"
  using assms
proof (induction payload arbitrary: i st)
  case Nil
  then show ?case by simp
next
  case (Cons raw rest)
  from Cons.prems obtain f where f: "read_fields raw = Inr f"
    "\<not> missing_fields f \<longrightarrow> (\<exists>r. build_row env raw f = Inr r)" by auto
  then have "\<exists>st1. scan_step env True t ex i raw st = Inr st1"
    by (cases "missing_fields f") (auto simp: scan_step_def blockedBySimilarity_def)
  then obtain st1 where "scan_step env True t ex i raw st = Inr st1" by blast
  moreover from Cons.prems have "\<forall>raw\<in>set rest. \<exists>f. read_fields raw = Inr f \<and>
             (\<not> missing_fields f \<longrightarrow> (\<exists>r. build_row env raw f = Inr r))" by simp
  from Cons.IH[OF this] obtain st' where "scan env True t ex (Suc i) rest st1 = Inr st'" by blast
  ultimately show ?case by simp
qed

lemma bulkImport_responds:
  assumes "atomic_inserts env" "payload_of b = JArr payload" "payload \<noteq> []"
    "error (select_songs env (db w)) = None" "scanned env q w payload = Inr st"
  shows "\<exists>code sm rs w'. bulkImport env q b w = (Response code (BulkBody sm rs), w')"
  using bulkImport_atomic[OF assms] by (simp add: reconcile_def Let_def)

lemma permissive_mode_responds:
  assumes "atomic_inserts env" "payload_of b = JArr payload" "payload \<noteq> []"
    "error (select_songs env (db w)) = None" "allowSimilar_of q"
    "\<forall>raw\<in>set payload. \<exists>f. read_fields raw = Inr f \<and>
             (\<not> missing_fields f \<longrightarrow> (\<exists>r. build_row env raw f = Inr r))"
  shows "\<exists>code sm rs w'. bulkImport env q b w = (Response code (BulkBody sm rs), w')"
proof -
  from scan_permissive_total[OF assms(6)] assms(5)
  obtain st where "scanned env q w payload = Inr st"
    unfolding scanned_def by (metis (full_types))
  from bulkImport_responds[OF assms(1-4) this] show ?thesis .
qed

section \<open>Evaluating the handler on concrete requests\<close>

lemmas eval_request =
  bulkImport_def payload_of_def opt_prop_def sb_select_def sb_insert_def
  allowSimilar_of_def similarity_of_def existingNames_of_def init_state_def
  parseFloat_def unsignedLiteral_def exponentPart_def scale10_def digitsVal_def
  isWhite_def isDigit_def Math_min_def Math_max_def
  scan_step_def read_fields_def missing_fields_def js_or_def js_coalesce_def nullish_def
  blockedBySimilarity_def compare_names_def build_row_def asObj_def
  invalid_outcome_def skipped_outcome_def failed_outcome_def created_outcome_def
  insert_loop.simps slice_def BATCH_def reconcile_def count_status_def
  jsonError_def sbAssert_def catch_handler_def Let_def

lemmas eval_json = JSON_parse_text_def isJsonWs_def store_member_def json_number_def

lemmas eval_mem =
  mem_env_def mem_world_def mem_select_def mem_insert_def text_of_def candidate_def
  strict_def permissive_def dice_def firstBigrams_def enumerate_eq_zip eval_json

lemma mem_atomic: "atomic_inserts mem_env"
  by (simp add: atomic_inserts_def mem_env_def mem_insert_def Let_def)

lemma mixed_scan:
  "\<exists>st. scanned mem_env (strict ''0.8'') (mem_world [] [])
     [candidate ''Amazing Grace'', JNum (Fin 3), candidate ''Amazing Grase'',
      serialized_candidate ''Be Thou My Vision''] = Inr st"
  by (simp add: scanned_def serialized_candidate_def eval_request eval_mem)

lemma scan_step_candidate_permissive:
  "name \<noteq> [] \<Longrightarrow>
   scan_step mem_env True t ex i (candidate name) st =
     Inr (st\<lparr>toInsert := toInsert st @ [\<lparr>c_index = i, c_row = candidate_row name\<rparr>],
             acceptedNames := acceptedNames st @ [JStr name]\<rparr>)"
  by (simp add: scan_step_def read_fields_def missing_fields_def js_or_def js_coalesce_def
      nullish_def opt_prop_def blockedBySimilarity_def build_row_def asObj_def candidate_def
      candidate_row_def mem_env_def)

lemma scan_replicate_permissive:
  "name \<noteq> [] \<Longrightarrow>
   scan mem_env True t ex i (replicate m (candidate name)) st =
     Inr (st\<lparr>toInsert := toInsert st @ map (\<lambda>k. \<lparr>c_index = k, c_row = candidate_row name\<rparr>) [i..<i + m],
             acceptedNames := acceptedNames st @ replicate m (JStr name)\<rparr>)"
proof (induction m arbitrary: i st)
  case 0
  then show ?case by simp
next
  case (Suc m)
  have "[i..<i + Suc m] = i # [Suc i..<Suc i + m]"
    by (simp add: upt_conv_Cons del: upt_Suc)
  then show ?case
    using Suc by (simp add: scan_step_candidate_permissive del: upt_Suc)
qed

lemma chunks_two:
  assumes "BATCH < length xs" "length xs \<le> 2 * BATCH"
  shows "chunks xs = [take BATCH xs, drop BATCH xs]"
proof -
  have 1: "xs \<noteq> []" using assms(1) by auto
  have 2: "drop BATCH xs \<noteq> []" using assms(1) by simp
  have 3: "drop BATCH (drop BATCH xs) = []" using assms(2) by simp
  have 4: "take BATCH (drop BATCH xs) = drop BATCH xs" using assms(2) by simp
  show ?thesis
    by (simp only: chunks_nonempty[OF 1] chunks_nonempty[OF 2] 3 4 chunks_Nil)
qed

lemma two_chunk_request_responds:
  "\<exists>code sm rs w' st.
     bulkImport mem_env permissive (JArr (replicate 501 (candidate ''Hymn''))) (mem_world [] fl)
       = (Response code (BulkBody sm rs), w')
     \<and> scanned mem_env permissive (mem_world [] fl) (replicate 501 (candidate ''Hymn'')) = Inr st
     \<and> toInsert st = map (\<lambda>k. \<lparr>c_index = k, c_row = candidate_row ''Hymn''\<rparr>) [0..<501]"
proof -
  let ?payload = "replicate 501 (candidate ''Hymn'')"
  let ?w = "mem_world [] fl"
  let ?st = "init_state\<lparr>toInsert := toInsert init_state @
                map (\<lambda>k. \<lparr>c_index = k, c_row = candidate_row ''Hymn''\<rparr>) [0..<0 + 501],
             acceptedNames := acceptedNames init_state @ replicate 501 (JStr ''Hymn'')\<rparr>"
  have sc: "scanned mem_env permissive ?w ?payload = Inr ?st"
    unfolding scanned_def
    by (simp only: allowSimilar_of_def permissive_def query.simps option.simps refl if_True)
       (rule scan_replicate_permissive, simp)
  have p: "payload_of (JArr ?payload) = JArr ?payload" by (simp add: payload_of_def)
  have ne: "?payload \<noteq> []" by simp
  have sel: "error (select_songs mem_env (db ?w)) = None"
    by (simp add: mem_env_def mem_select_def)
  have ti: "toInsert ?st = map (\<lambda>k. \<lparr>c_index = k, c_row = candidate_row ''Hymn''\<rparr>) [0..<501]"
    by (simp add: init_state_def)
  show ?thesis
    using bulkImport_atomic[OF mem_atomic p ne sel sc] sc ti
    by (simp add: reconcile_def Let_def del: upt_Suc)
qed

lemma read_fields_candidate:
  "name \<noteq> [] \<Longrightarrow> read_fields (candidate name) = Inr (candidate_fields name)"
  by (simp add: read_fields_def candidate_def candidate_fields_def opt_prop_def js_or_def
      js_coalesce_def nullish_def)

lemma candidate_fields_present: "name \<noteq> [] \<Longrightarrow> \<not> missing_fields (candidate_fields name)"
  by (simp add: missing_fields_def candidate_fields_def)

lemma strict_08: "\<not> allowSimilar_of (strict ''0.8'')" "similarity_of (strict ''0.8'') = Fin (4 / 5)"
  by (simp_all add: allowSimilar_of_def strict_def similarity_of_def parseFloat_def
      unsignedLiteral_def exponentPart_def scale10_def digitsVal_def isWhite_def isDigit_def
      Math_min_def Math_max_def)




lemma hymns_scores:
  "similar_to mem_env (Fin (4 / 5)) (JStr ''Amazing Grase'') (JStr ''Amazing Grace'')"
  "similar_to mem_env (Fin (4 / 5)) (JStr ''Be Thou my Vision'') (JStr ''Be Thou My Vision'')"
  "\<not> similar_to mem_env (Fin (4 / 5)) (JStr ''How Great Thou Art'') (JStr ''Be Thou My Vision'')"
  "\<not> similar_to mem_env (Fin (4 / 5)) (JStr ''How Great Thou Art'') (JStr ''Amazing Grace'')"
  by (simp_all add: similar_to_def compare_names_def mem_env_def dice_def isWhite_def firstBigrams_def)


lemma hymns_scan_failing:
  "\<exists>st. scanned mem_env (strict ''0.8'') (mem_world stored_songs [0]) hymns = Inr st
        \<and> toInsert st = [\<lparr>c_index = 0, c_row = candidate_row ''Amazing Grace''\<rparr>,
                         \<lparr>c_index = 3, c_row = candidate_row ''How Great Thou Art''\<rparr>]"
  by (simp add: scanned_def hymns_def stored_songs_def candidate_row_def eval_request eval_mem)

lemma hymns_respond_failing:
  "\<exists>code sm rs w'. bulkImport mem_env (strict ''0.8'') (JArr hymns) (mem_world stored_songs [0])
      = (Response code (BulkBody sm rs), w')"
  by (simp add: hymns_def stored_songs_def eval_request eval_mem)

lemma hymns_prefix_failing:
  "\<exists>sk. scanned mem_env (strict ''0.8'') (mem_world stored_songs [0]) (take 1 hymns) = Inr sk"
  by (simp add: scanned_def hymns_def stored_songs_def eval_request eval_mem)

lemma chunks_one:
  assumes "xs \<noteq> []" "length xs \<le> BATCH"
  shows "chunks xs = [xs]"
  using assms by (simp add: chunks_nonempty)


section \<open>The similarity threshold\<close>

text \<open>On every parameter that \<^verbatim>\<open>parseFloat\<close> reads as a number, the threshold is
  clamped into the unit interval; absent, it is 0.8; it is NaN exactly when
  \<^verbatim>\<open>parseFloat\<close> returns NaN.\<close>

lemma parseFloat_default: "parseFloat ''0.8'' = Fin (8 / 10)"
  by (simp add: parseFloat_def unsignedLiteral_def isWhite_def isDigit_def digitsVal_def
      exponentPart_def scale10_def)

lemma similarity_of_numeric:
  assumes "parseFloat (case similarity q of None \<Rightarrow> ''0.8'' | Some s \<Rightarrow> s) = Fin x"
  shows "similarity_of q = Fin (max 0 (min 1 x))"
  using assms by (auto simp: similarity_of_def Math_min_def Math_max_def)

lemma similarity_of_infinite:
  "parseFloat (case similarity q of None \<Rightarrow> ''0.8'' | Some s \<Rightarrow> s) = PosInf
     \<Longrightarrow> similarity_of q = Fin 1"
  "parseFloat (case similarity q of None \<Rightarrow> ''0.8'' | Some s \<Rightarrow> s) = NegInf
     \<Longrightarrow> similarity_of q = Fin 0"
  by (auto simp: similarity_of_def Math_min_def Math_max_def)

lemma similarity_of_absent: "similarity q = None \<Longrightarrow> similarity_of q = Fin (8 / 10)"
  by (simp add: similarity_of_def parseFloat_default Math_min_def Math_max_def)

lemma similarity_of_NaN_iff:
  "similarity_of q = NaN \<longleftrightarrow>
     parseFloat (case similarity q of None \<Rightarrow> ''0.8'' | Some s \<Rightarrow> s) = NaN"
  by (cases "parseFloat (case similarity q of None \<Rightarrow> ''0.8'' | Some s \<Rightarrow> s)")
    (auto simp: similarity_of_def Math_min_def Math_max_def)

lemma js_ge_NaN_right [simp]: "js_ge a NaN = False"
  by (cases a) simp_all

lemma some_similar_NaN: "some_similar env NaN name ns \<noteq> Inr True"
  by (induction ns) (auto split: sum.splits)

text \<open>
  Claim C8, at the parameter \<^verbatim>\<open>similarity=abc\<close>: \<^verbatim>\<open>parseFloat\<close> returns NaN, which
  \<^verbatim>\<open>Math.min\<close> and \<^verbatim>\<open>Math.max\<close> hand on, so the threshold is NaN: it is neither
  at least 0 nor at most 1.
\<close>

theorem similarity_of_non_numeric:
  "similarity_of \<lparr>allowSimilar = Some ''false'', similarity = Some ''abc''\<rparr> = NaN
   \<and> \<not> js_ge (similarity_of \<lparr>allowSimilar = Some ''false'', similarity = Some ''abc''\<rparr>) (Fin 0)
   \<and> \<not> js_ge (Fin 1) (similarity_of \<lparr>allowSimilar = Some ''false'', similarity = Some ''abc''\<rparr>)"
  by (simp add: similarity_of_def parseFloat_def unsignedLiteral_def isWhite_def
      isDigit_def Math_min_def Math_max_def)

section \<open>One outcome for each input\<close>

text \<open>
  Claim C1, as the handler has it. Let every insert be all-or-nothing on its chunk, and
  let the body hold the payload. When the payload is not empty, the snapshot read
  reports no error and the scan of the payload runs to its end without a throw, the
  handler answers with a results list; and a results list it answers with has one
  outcome for each element of the payload: it is as long as the payload, and its index
  fields are \<open>0, 1, ..., length payload - 1\<close> in this order, so each index occurs once
  and the list is sorted by index. When the scan throws, or the snapshot read reports an
  error, the handler answers with status 500 and an error body, with no outcome for any
  element, after the snapshot read alone.
\<close>

theorem one_outcome_per_input:
  assumes "atomic_inserts env"
    and "payload_of b = JArr payload"
  shows "(bulkImport env q b w = (Response code (BulkBody sm rs), w') \<longrightarrow>
            length rs = length payload
          \<and> map index rs = [0..<length payload]
          \<and> mset (map index rs) = mset [0..<length payload]
          \<and> sorted (map index rs))
       \<and> (payload \<noteq> [] \<and> error (select_songs env (db w)) = None
            \<and> scanned env q w payload = Inr st \<longrightarrow>
          (\<exists>code sm rs w'. bulkImport env q b w = (Response code (BulkBody sm rs), w')))
       \<and> (payload \<noteq> [] \<and> error (select_songs env (db w)) = None
            \<and> scanned env q w payload = Inl e \<longrightarrow>
          bulkImport env q b w =
            (Response 500
               (ErrorBody (if exn_message e \<noteq> [] then exn_message e
                           else ''Bulk insert failed'')),
             w\<lparr>calls := calls w @ [SelectSongs (select_songs env (db w))]\<rparr>))
       \<and> (payload \<noteq> [] \<and> error (select_songs env (db w)) = Some err \<longrightarrow>
          bulkImport env q b w =
            (Response 500
               (ErrorBody (if message err \<noteq> [] then message err else ''Database error'')),
             w\<lparr>calls := calls w @ [SelectSongs (select_songs env (db w))]\<rparr>))"
proof (intro conjI impI)
  assume r: "bulkImport env q b w = (Response code (BulkBody sm rs), w')"
  from assms r obtain st where m: "map index rs = [0..<length payload]"
    by (rule bulkImport_results)
  have "length rs = length payload" using arg_cong[OF m, of length] by simp
  then show "length rs = length payload" "map index rs = [0..<length payload]"
    "mset (map index rs) = mset [0..<length payload]" "sorted (map index rs)"
    using m by simp_all
next
  assume "payload \<noteq> [] \<and> error (select_songs env (db w)) = None
            \<and> scanned env q w payload = Inr st"
  then show "\<exists>code sm rs w'. bulkImport env q b w = (Response code (BulkBody sm rs), w')"
    using bulkImport_responds[OF assms] by blast
next
  assume "payload \<noteq> [] \<and> error (select_songs env (db w)) = None
            \<and> scanned env q w payload = Inl e"
  then show "bulkImport env q b w =
            (Response 500
               (ErrorBody (if exn_message e \<noteq> [] then exn_message e
                           else ''Bulk insert failed'')),
             w\<lparr>calls := calls w @ [SelectSongs (select_songs env (db w))]\<rparr>)"
    using assms(2)
    by (simp add: bulkImport_def scanned_def sb_select_def catch_handler_def jsonError_def
        Let_def)
next
  assume "payload \<noteq> [] \<and> error (select_songs env (db w)) = Some err"
  then show "bulkImport env q b w =
            (Response 500
               (ErrorBody (if message err \<noteq> [] then message err else ''Database error'')),
             w\<lparr>calls := calls w @ [SelectSongs (select_songs env (db w))]\<rparr>)"
    using assms(2)
    by (simp add: bulkImport_def sb_select_def sbAssert_def jsonError_def Let_def)
qed

theorem one_outcome_per_input_witness:
  "\<exists>code sm rs w'.
     bulkImport mem_env (strict ''0.8'')
       (JArr [candidate ''Amazing Grace'', JNum (Fin 3), candidate ''Amazing Grase'',
              serialized_candidate ''Be Thou My Vision''])
       (mem_world [] []) = (Response code (BulkBody sm rs), w')
     \<and> atomic_inserts mem_env
     \<and> length rs = 4 \<and> map index rs = [0, 1, 2, 3]
     \<and> mset (map index rs) = {#0, 1, 2, 3#} \<and> sorted (map index rs)"
proof -
  let ?payload = "[candidate ''Amazing Grace'', JNum (Fin 3), candidate ''Amazing Grase'',
                   serialized_candidate ''Be Thou My Vision'']"
  let ?w = "mem_world [] []"
  have p: "payload_of (JArr ?payload) = JArr ?payload" by (simp add: payload_of_def)
  from mixed_scan obtain st where st: "scanned mem_env (strict ''0.8'') ?w ?payload = Inr st"
    by blast
  have sel: "error (select_songs mem_env (db ?w)) = None"
    by (simp add: mem_env_def mem_select_def)
  note th = one_outcome_per_input[OF mem_atomic p, where q = "strict ''0.8''" and w = ?w and st = st]
  from th[THEN conjunct2, THEN conjunct1] st sel have "\<exists>code sm rs w'.
      bulkImport mem_env (strict ''0.8'') (JArr ?payload) ?w = (Response code (BulkBody sm rs), w')"
    by simp
  then obtain code sm rs w' where
    r: "bulkImport mem_env (strict ''0.8'') (JArr ?payload) ?w
          = (Response code (BulkBody sm rs), w')"
    by blast
  have u: "[0..<length ?payload] = [0, 1, 2, 3]" by (simp add: upt_rec)
  from one_outcome_per_input[OF mem_atomic p, where q = "strict ''0.8''" and w = ?w
      and code = code and sm = sm and rs = rs and w' = w'] r u
  have "length rs = 4 \<and> map index rs = [0, 1, 2, 3]
     \<and> mset (map index rs) = {#0, 1, 2, 3#} \<and> sorted (map index rs)"
    by (simp del: mset_map add: numeral_2_eq_2 numeral_3_eq_3)
  with r mem_atomic show ?thesis
    by (intro exI[of _ code] exI[of _ sm] exI[of _ rs] exI[of _ w'])
      (simp add: numeral_2_eq_2 numeral_3_eq_3)
qed

text \<open>
  A payload of three elements whose second element is \<^verbatim>\<open>null\<close>, in permissive mode
  on an empty table whose inserts are all-or-nothing: the body passes the structural
  check, reading \<^verbatim>\<open>raw.song_name\<close> on the second element throws, and the handler
  answers with status 500 and an error body. No element gets an outcome, the first one
  included, and no insert is made.
\<close>

theorem one_outcome_per_input_counterexample:
  "bulkImport mem_env permissive
     (JArr [candidate ''Amazing Grace'', JNull, candidate ''Be Thou My Vision''])
     (mem_world [] [])
   = (Response 500
        (ErrorBody (''Cannot read properties of null (reading '' @ quoted ''song_name'' @ '')'')),
      \<lparr>db = \<lparr>stored = [], inserts_done = 0, failing = []\<rparr>,
       calls = [SelectSongs \<lparr>data = Some [], error = None\<rparr>]\<rparr>)
   \<and> payload_of (JArr [candidate ''Amazing Grace'', JNull, candidate ''Be Thou My Vision''])
       = JArr [candidate ''Amazing Grace'', JNull, candidate ''Be Thou My Vision'']
   \<and> atomic_inserts mem_env"
proof (intro conjI)
  show "bulkImport mem_env permissive
     (JArr [candidate ''Amazing Grace'', JNull, candidate ''Be Thou My Vision''])
     (mem_world [] [])
   = (Response 500
        (ErrorBody (''Cannot read properties of null (reading '' @ quoted ''song_name'' @ '')'')),
      \<lparr>db = \<lparr>stored = [], inserts_done = 0, failing = []\<rparr>,
       calls = [SelectSongs \<lparr>data = Some [], error = None\<rparr>]\<rparr>)"
    by (simp add: quoted_def eval_request eval_mem)
  show "payload_of (JArr [candidate ''Amazing Grace'', JNull, candidate ''Be Thou My Vision''])
       = JArr [candidate ''Amazing Grace'', JNull, candidate ''Be Thou My Vision'']"
    by (simp add: payload_of_def)
  show "atomic_inserts mem_env" by (rule mem_atomic)
qed

section \<open>Permissive mode\<close>



section \<open>A failed chunk stays alone\<close>

text \<open>
  Claim C5. Under all-or-nothing inserts, when the handler answers with a results list:
  every chunk of the accepted records was submitted, once and in order, after the
  snapshot read, whatever the earlier inserts resolved to; the chunks together are
  the accepted records; a record of a chunk is reported \<^verbatim>\<open>failed\<close> when the insert of
  its own chunk reported an error and \<^verbatim>\<open>created\<close> when it did not; and a record
  reported \<^verbatim>\<open>failed\<close> belongs to a chunk whose insert reported an error.
\<close>

theorem chunk_failure_isolation:
  assumes "atomic_inserts env"
    and "payload_of b = JArr payload"
    and "bulkImport env q b w = (Response code (BulkBody sm rs), w')"
    and "scanned env q w payload = Inr st"
  shows "let cks = chunks (toInsert st);
             ress = run_inserts env (db w) (map (map c_row) cks)
         in calls w' = calls w @ SelectSongs (select_songs env (db w)) #
                         map2 InsertSongs (map (map c_row) cks) ress
          \<and> concat cks = toInsert st
          \<and> (\<forall>j<length cks. \<forall>c\<in>set (cks ! j).
                status (rs ! c_index c) = (if error (ress ! j) = None then ''created'' else ''failed''))
          \<and> (\<forall>k<length payload. status (rs ! k) = ''failed'' \<longrightarrow>
                (\<exists>j<length cks. (\<exists>c\<in>set (cks ! j). c_index c = k) \<and> error (ress ! j) \<noteq> None))"
proof -
  let ?cks = "chunks (toInsert st)"
  let ?ress = "run_inserts env (db w) (map (map c_row) ?cks)"
  from assms(1-3) obtain st' where s: "scanned env q w payload = Inr st'"
    "rs = sort_key index (results st' @ concat (map2 chunk_outcomes (chunks (toInsert st'))
           (run_inserts env (db w) (map (map c_row) (chunks (toInsert st'))))))"
    "map index rs = [0..<length payload]"
    "w' = \<lparr>db = final_db env (db w) (map (map c_row) (chunks (toInsert st'))),
       calls = calls w @ SelectSongs (select_songs env (db w)) #
                 map2 InsertSongs (map (map c_row) (chunks (toInsert st')))
                   (run_inserts env (db w) (map (map c_row) (chunks (toInsert st'))))\<rparr>"
    by (rule bulkImport_results)
  with assms(4) have e: "st' = st" by simp
  have a: "calls w' = calls w @ SelectSongs (select_songs env (db w)) #
                         map2 InsertSongs (map (map c_row) ?cks) ?ress"
    using s(4) e by simp
  have b: "\<forall>j<length ?cks. \<forall>c\<in>set (?cks ! j).
                status (rs ! c_index c) = (if error (?ress ! j) = None then ''created'' else ''failed'')"
    using item_outcome[OF assms] by blast
  have c: "\<forall>k<length payload. status (rs ! k) = ''failed'' \<longrightarrow>
                (\<exists>j<length ?cks. (\<exists>c\<in>set (?cks ! j). c_index c = k) \<and> error (?ress ! j) \<noteq> None)"
  proof (intro allI impI)
    fix k assume k: "k < length payload" and f: "status (rs ! k) = ''failed''"
    have len: "length rs = length payload" using arg_cong[OF s(3), of length] by simp
    have ik: "index (rs ! k) = k"
      using k len nth_map[of k rs index] by (simp add: s(3))
    have "rs ! k \<in> set rs" using k len by simp
    then have "rs ! k \<in> set (results st) \<or>
               rs ! k \<in> set (concat (map2 chunk_outcomes ?cks ?ress))"
      using s(2) e by simp
    then show "\<exists>j<length ?cks. (\<exists>c\<in>set (?cks ! j). c_index c = k) \<and> error (?ress ! j) \<noteq> None"
    proof
      assume "rs ! k \<in> set (results st)"
      with scan_shape_from_init(3)[OF assms(4)] f show ?thesis by auto
    next
      assume "rs ! k \<in> set (concat (map2 chunk_outcomes ?cks ?ress))"
      from writer_outcome_conv[OF assms(1) this] f ik show ?thesis
        by (auto split: if_splits)
    qed
  qed
  show ?thesis unfolding Let_def using a b c concat_chunks by blast
qed

theorem chunk_failure_isolation_witness:
  "\<exists>code sm rs w'.
     bulkImport mem_env permissive (JArr (replicate 501 (candidate ''Hymn''))) (mem_world [] [0])
       = (Response code (BulkBody sm rs), w')
     \<and> atomic_inserts mem_env
     \<and> status (rs ! 0) = ''failed'' \<and> status (rs ! 499) = ''failed''
     \<and> status (rs ! 500) = ''created''
     \<and> length (calls w') = 3"
proof -
  let ?payload = "replicate 501 (candidate ''Hymn'')"
  let ?w = "mem_world [] [0]"
  let ?item = "\<lambda>k. \<lparr>c_index = k, c_row = candidate_row ''Hymn''\<rparr>"
  let ?xs = "map ?item [0..<501]"
  from two_chunk_request_responds obtain code sm rs w' st where
    r: "bulkImport mem_env permissive (JArr ?payload) ?w = (Response code (BulkBody sm rs), w')"
    and sc: "scanned mem_env permissive ?w ?payload = Inr st"
    and ti: "toInsert st = ?xs"
    by blast
  have p: "payload_of (JArr ?payload) = JArr ?payload" by (simp add: payload_of_def)
  have ck: "chunks (toInsert st) = [take BATCH ?xs, drop BATCH ?xs]"
    unfolding ti by (rule chunks_two) (simp_all add: BATCH_def)
  let ?rowss = "[map c_row (take BATCH ?xs), map c_row (drop BATCH ?xs)]"
  have e0: "error (run_inserts mem_env (db ?w) ?rowss ! 0) \<noteq> None"
    by (simp add: mem_env_def mem_world_def mem_insert_def)
  have e1: "error (run_inserts mem_env (db ?w) ?rowss ! 1) = None"
    by (simp add: mem_env_def mem_world_def mem_insert_def Let_def)
  have m0: "?item 0 \<in> set (take BATCH ?xs)" and m499: "?item 499 \<in> set (take BATCH ?xs)"
    and m500: "?item 500 \<in> set (drop BATCH ?xs)"
    by (simp_all add: BATCH_def take_map drop_map del: upt_Suc)
  note th = chunk_failure_isolation[OF mem_atomic p r sc, unfolded Let_def ck]
  from th have calls: "calls w' = calls ?w @ SelectSongs (select_songs mem_env (db ?w)) #
       map2 InsertSongs (map (map c_row) [take BATCH ?xs, drop BATCH ?xs])
         (run_inserts mem_env (db ?w) (map (map c_row) [take BATCH ?xs, drop BATCH ?xs]))"
    by blast
  from th have st: "\<forall>j<length [take BATCH ?xs, drop BATCH ?xs].
      \<forall>c\<in>set ([take BATCH ?xs, drop BATCH ?xs] ! j).
        status (rs ! c_index c) =
          (if error (run_inserts mem_env (db ?w)
                       (map (map c_row) [take BATCH ?xs, drop BATCH ?xs]) ! j) = None
           then ''created'' else ''failed'')"
    by blast
  from st[rule_format, of 0 "?item 0"] m0 e0 have s0: "status (rs ! 0) = ''failed''" by simp
  from st[rule_format, of 0 "?item 499"] m499 e0 have s499: "status (rs ! 499) = ''failed''" by simp
  from st[rule_format, of 1 "?item 500"] m500 e1 have s500: "status (rs ! 500) = ''created''" by simp
  have len: "length (calls w') = 3" unfolding calls by (simp add: mem_world_def)
  show ?thesis
    using r mem_atomic s0 s499 s500 len
    by (intro exI[of _ code] exI[of _ sm] exI[of _ rs] exI[of _ w']) simp
qed

section \<open>Strict mode: the threshold decides\<close>



section \<open>Near-duplicates in one payload\<close>




section \<open>A conflict with a name that was never created\<close>

text \<open>
  Claim C10. In strict mode, under all-or-nothing inserts, when the handler answers with
  a results list: the name of an accepted record is in \<^verbatim>\<open>acceptedNames\<close> when any
  later record is scanned, before any insert; so when the insert of its chunk fails and
  a later record that passed validation scores at least the threshold against it, the
  earlier record is reported \<^verbatim>\<open>failed\<close> and the later one
  \<^verbatim>\<open>skipped_conflict\<close>.
\<close>

theorem conflict_with_failed_record:
  assumes "atomic_inserts env"
    and "payload_of b = JArr payload"
    and "bulkImport env q b w = (Response code (BulkBody sm rs), w')"
    and "scanned env q w payload = Inr st"
    and "\<not> allowSimilar_of q"
    and "j < length (chunks (toInsert st))" and "c \<in> set (chunks (toInsert st) ! j)"
    and "error (run_inserts env (db w) (map (map c_row) (chunks (toInsert st))) ! j) \<noteq> None"
    and "c_index c < k" and "k < length payload"
    and "read_fields (payload ! k) = Inr f" and "\<not> missing_fields f"
    and "similar_to env (similarity_of q) (fst f) (song_name (c_row c))"
    and "scanned env q w (take k payload) = Inr sk"
  shows "song_name (c_row c) \<in> set (acceptedNames sk)
       \<and> status (rs ! c_index c) = ''failed''
       \<and> status (rs ! k) = ''skipped_conflict''"
proof -
  have cm: "c \<in> set (toInsert st)"
  proof -
    have "chunks (toInsert st) ! j \<in> set (chunks (toInsert st))" using assms(6) by simp
    with assms(7) have "c \<in> set (concat (chunks (toInsert st)))" by auto
    then show ?thesis by (simp add: concat_chunks)
  qed
  have v: "song_name (c_row c) \<in> set (acceptedNames sk)"
    by (rule accepted_name_visible[OF assms(4) _ assms(14) cm assms(9)]) (use assms(10) in simp)
  from item_outcome[OF assms(1,2,3,4,6,7)] assms(8)
  have fl: "status (rs ! c_index c) = ''failed''" by simp
  from v assms(13) have "\<exists>n\<in>set (existingNames_of (select_songs env (db w))) \<union> set (acceptedNames sk).
      similar_to env (similarity_of q) (fst f) n" by blast
  with step_verdict[OF assms(4,10,11,12,14)] assms(5)
  have m: "skipped_outcome k (fst f) (similarity_of q) \<in> set (results st)" by simp
  from kept_scan_outcome[OF assms(1,2,3,4) m]
  have "rs ! k = skipped_outcome k (fst f) (similarity_of q)" by (simp add: skipped_outcome_def)
  with v fl show ?thesis by (simp add: skipped_outcome_def)
qed

theorem conflict_with_failed_record_witness:
  "\<exists>code sm rs w'.
     bulkImport mem_env (strict ''0.8'') (JArr hymns) (mem_world stored_songs [0])
       = (Response code (BulkBody sm rs), w')
     \<and> status (rs ! 0) = ''failed''
     \<and> status (rs ! 1) = ''skipped_conflict''"
proof -
  let ?q = "strict ''0.8''" and ?w = "mem_world stored_songs [0]"
  let ?c = "\<lparr>c_index = 0, c_row = candidate_row ''Amazing Grace''\<rparr>"
  let ?d = "\<lparr>c_index = 3, c_row = candidate_row ''How Great Thou Art''\<rparr>"
  from hymns_respond_failing obtain code sm rs w' where
    r: "bulkImport mem_env ?q (JArr hymns) ?w = (Response code (BulkBody sm rs), w')" by blast
  have p: "payload_of (JArr hymns) = JArr hymns" by (simp add: payload_of_def)
  from hymns_scan_failing obtain st where
    st: "scanned mem_env ?q ?w hymns = Inr st" and ti: "toInsert st = [?c, ?d]" by blast
  from hymns_prefix_failing obtain sk where
    sk: "scanned mem_env ?q ?w (take 1 hymns) = Inr sk" by blast
  have ck: "chunks (toInsert st) = [[?c, ?d]]"
    unfolding ti by (rule chunks_one) (simp_all add: BATCH_def)
  have j: "0 < length (chunks (toInsert st))" and c: "?c \<in> set (chunks (toInsert st) ! 0)"
    by (simp_all add: ck)
  have e: "error (run_inserts mem_env (db ?w) (map (map c_row) (chunks (toInsert st))) ! 0) \<noteq> None"
    by (simp add: ck mem_env_def mem_world_def mem_insert_def)
  have f1: "read_fields (hymns ! 1) = Inr (candidate_fields ''Amazing Grase'')"
    by (simp add: hymns_def read_fields_candidate)
  have sim: "similar_to mem_env (similarity_of ?q) (fst (candidate_fields ''Amazing Grase''))
               (song_name (c_row ?c))"
    using hymns_scores(1) by (simp add: strict_08(2) candidate_fields_def candidate_row_def)
  have k: "c_index ?c < 1" "1 < length hymns" by (simp_all add: hymns_def)
  from conflict_with_failed_record[OF mem_atomic p r st strict_08(1) j c e k f1
      candidate_fields_present sim sk]
  show ?thesis
    using r
    by (intro exI[of _ code] exI[of _ sm] exI[of _ rs] exI[of _ w']) simp
qed

section \<open>What enters acceptedNames\<close>

text \<open>
  Claim C7. When the scan runs to its end: \<^verbatim>\<open>acceptedNames\<close> is the list of the names
  of the records in \<^verbatim>\<open>toInsert\<close>, in order; at every point of the scan, after \<open>k\<close>
  records, it is the list of the names of the records accepted among the first \<open>k\<close>;
  every record in \<^verbatim>\<open>toInsert\<close> passed validation, gave the name it was read with, and
  in strict mode scored below the threshold against the snapshot and the names accepted
  before it; and every outcome the scan recorded is \<^verbatim>\<open>invalid\<close> or
  \<^verbatim>\<open>skipped_conflict\<close> and belongs to a record that is not in \<^verbatim>\<open>toInsert\<close>, so
  its name was never added.
\<close>

theorem acceptedNames_grow_by_accepted_only:
  assumes "scanned env q w payload = Inr st"
  shows "acceptedNames st = map (\<lambda>c. song_name (c_row c)) (toInsert st)
       \<and> (\<forall>k\<le>length payload. \<exists>sk.
             scanned env q w (take k payload) = Inr sk
             \<and> acceptedNames sk =
                 map (\<lambda>c. song_name (c_row c)) (filter (\<lambda>c. c_index c < k) (toInsert st)))
       \<and> (\<forall>c\<in>set (toInsert st). c_index c < length payload \<and>
             (\<exists>f sk. read_fields (payload ! c_index c) = Inr f \<and> \<not> missing_fields f
                \<and> song_name (c_row c) = fst f
                \<and> scanned env q w (take (c_index c) payload) = Inr sk
                \<and> (\<not> allowSimilar_of q \<longrightarrow>
                     \<not> (\<exists>n\<in>set (existingNames_of (select_songs env (db w)))
                              \<union> set (acceptedNames sk).
                           similar_to env (similarity_of q) (fst f) n))))
       \<and> (\<forall>r\<in>set (results st).
             (status r = ''invalid'' \<or> status r = ''skipped_conflict'')
             \<and> index r \<notin> c_index ` set (toInsert st))"
proof (intro conjI)
  show "acceptedNames st = map (\<lambda>c. song_name (c_row c)) (toInsert st)"
    by (rule scan_shape_from_init(2)[OF assms])
  show "\<forall>k\<le>length payload. \<exists>sk.
             scanned env q w (take k payload) = Inr sk
             \<and> acceptedNames sk =
                 map (\<lambda>c. song_name (c_row c)) (filter (\<lambda>c. c_index c < k) (toInsert st))"
  proof (intro allI impI)
    fix k assume k: "k \<le> length payload"
    from scanned_prefix[OF assms] obtain sk where sk: "scanned env q w (take k payload) = Inr sk"
      by blast
    from accepted_prefix[OF assms k sk] scan_shape_from_init(2)[OF sk] sk
    show "\<exists>sk. scanned env q w (take k payload) = Inr sk
             \<and> acceptedNames sk =
                 map (\<lambda>c. song_name (c_row c)) (filter (\<lambda>c. c_index c < k) (toInsert st))"
      by auto
  qed
  show "\<forall>c\<in>set (toInsert st). c_index c < length payload \<and>
             (\<exists>f sk. read_fields (payload ! c_index c) = Inr f \<and> \<not> missing_fields f
                \<and> song_name (c_row c) = fst f
                \<and> scanned env q w (take (c_index c) payload) = Inr sk
                \<and> (\<not> allowSimilar_of q \<longrightarrow>
                     \<not> (\<exists>n\<in>set (existingNames_of (select_songs env (db w)))
                              \<union> set (acceptedNames sk).
                           similar_to env (similarity_of q) (fst f) n)))"
  proof
    fix c assume c: "c \<in> set (toInsert st)"
    from item_origin[OF assms c] scan_indices_bound[OF assms c]
    show "c_index c < length payload \<and>
             (\<exists>f sk. read_fields (payload ! c_index c) = Inr f \<and> \<not> missing_fields f
                \<and> song_name (c_row c) = fst f
                \<and> scanned env q w (take (c_index c) payload) = Inr sk
                \<and> (\<not> allowSimilar_of q \<longrightarrow>
                     \<not> (\<exists>n\<in>set (existingNames_of (select_songs env (db w)))
                              \<union> set (acceptedNames sk).
                           similar_to env (similarity_of q) (fst f) n)))"
      by blast
  qed
  show "\<forall>r\<in>set (results st).
             (status r = ''invalid'' \<or> status r = ''skipped_conflict'')
             \<and> index r \<notin> c_index ` set (toInsert st)"
    using scan_shape_from_init(3)[OF assms] scan_indices_disjoint[OF assms] by blast
qed

theorem acceptedNames_grow_by_accepted_only_witness:
  "\<exists>st. scanned mem_env (strict ''0.8'') (mem_world stored_songs [0]) hymns = Inr st
     \<and> acceptedNames st = [JStr ''Amazing Grace'', JStr ''How Great Thou Art'']
     \<and> (\<exists>sk. scanned mem_env (strict ''0.8'') (mem_world stored_songs [0]) (take 2 hymns) = Inr sk
           \<and> acceptedNames sk = [JStr ''Amazing Grace''])"
proof -
  from hymns_scan_failing obtain st where
    st: "scanned mem_env (strict ''0.8'') (mem_world stored_songs [0]) hymns = Inr st"
    and ti: "toInsert st = [\<lparr>c_index = 0, c_row = candidate_row ''Amazing Grace''\<rparr>,
                         \<lparr>c_index = 3, c_row = candidate_row ''How Great Thou Art''\<rparr>]"
    by blast
  note th = acceptedNames_grow_by_accepted_only[OF st]
  from th have a: "acceptedNames st = [JStr ''Amazing Grace'', JStr ''How Great Thou Art'']"
    by (simp add: ti candidate_row_def)
  from th have "\<forall>k\<le>length hymns. \<exists>sk.
      scanned mem_env (strict ''0.8'') (mem_world stored_songs [0]) (take k hymns) = Inr sk
      \<and> acceptedNames sk = map (\<lambda>c. song_name (c_row c)) (filter (\<lambda>c. c_index c < k) (toInsert st))"
    by blast
  from this[rule_format, of 2]
  have b: "\<exists>sk. scanned mem_env (strict ''0.8'') (mem_world stored_songs [0]) (take 2 hymns) = Inr sk
           \<and> acceptedNames sk = [JStr ''Amazing Grace'']"
    by (simp add: ti candidate_row_def hymns_def)
  from st a b show ?thesis by blast
qed

(* ---- permissive mode ---- *)

section \<open>A content field that does not decode\<close>

text \<open>
  Claim C6, as the handler has it. When the snapshot read succeeds, the records before
  record \<open>k\<close> are scanned without a throw, and record \<open>k\<close> passes validation and the
  similarity check and has a \<^verbatim>\<open>main_stanza\<close> or \<^verbatim>\<open>stanzas\<close> that is a string
  \<^verbatim>\<open>JSON.parse\<close> rejects, the SyntaxError leaves the loop and reaches the
  \<^verbatim>\<open>catch\<close> of the handler: the whole request is answered with status 500 and an
  error body, with no outcome for any record, and the only call made to the database
  is the snapshot read, so no record of the batch is inserted.
\<close>

theorem decode_failure_aborts_request:
  assumes "payload_of b = JArr payload"
    and "error (select_songs env (db w)) = None"
    and "k < length payload"
    and "scanned env q w (take k payload) = Inr sk"
    and "read_fields (payload ! k) = Inr f" and "\<not> missing_fields f"
    and "blockedBySimilarity env (allowSimilar_of q) (similarity_of q)
           (existingNames_of (select_songs env (db w))) (acceptedNames sk) (fst f) = Inr False"
    and "(\<exists>s m. fst (snd f) = JStr s \<and> JSON_parse env s = Inl m)
       \<or> (\<exists>s m. snd (snd f) = JStr s \<and> JSON_parse env s = Inl m)"
  shows "\<exists>m. bulkImport env q b w =
           (Response 500 (ErrorBody m),
            w\<lparr>calls := calls w @ [SelectSongs (select_songs env (db w))]\<rparr>)"
proof -
  from build_row_decode_failure[OF assms(8)] obtain m where
    br: "build_row env (payload ! k) f = Inl (SyntaxError m)" by blast
  let ?al = "allowSimilar_of q" and ?t = "similarity_of q"
    and ?ex = "existingNames_of (select_songs env (db w))"
  have step: "scan_step env ?al ?t ?ex k (payload ! k) sk = Inl (SyntaxError m)"
    using assms(5,6,7) br by (simp add: scan_step_def)
  have pl: "payload = take k payload @ (payload ! k # drop (Suc k) payload)"
    using assms(3) by (simp add: id_take_nth_drop[symmetric])
  have lk: "length (take k payload) = k" using assms(3) by simp
  have "scan env ?al ?t ?ex 0 (take k payload @ (payload ! k # drop (Suc k) payload)) init_state
          = Inl (SyntaxError m)"
    using assms(4) step lk by (simp only: scan_append scanned_def) simp
  then have sc: "scan env ?al ?t ?ex 0 payload init_state = Inl (SyntaxError m)"
    using pl by simp
  have ne: "payload \<noteq> []" using assms(3) by auto
  have "bulkImport env q b w =
          (catch_handler (SyntaxError m),
           w\<lparr>calls := calls w @ [SelectSongs (select_songs env (db w))]\<rparr>)"
    using assms(1,2) ne sc by (simp add: bulkImport_def sb_select_def Let_def)
  then show ?thesis by (simp add: catch_handler_def jsonError_def)
qed

theorem decode_failure_aborts_request_witness:
  "\<exists>m. bulkImport mem_env permissive (JArr [candidate ''Amazing Grace'', broken_song])
          (mem_world [] [])
        = (Response 500 (ErrorBody m),
           (mem_world [] [])\<lparr>calls := [SelectSongs (mem_select (db (mem_world [] [])))]\<rparr>)"
proof -
  let ?payload = "[candidate ''Amazing Grace'', broken_song]"
  let ?w = "mem_world [] []"
  let ?f = "(JStr ''Rock of Ages'', JStr ''{'', JArr [JStr ''la''])"
  have p: "payload_of (JArr ?payload) = JArr ?payload" by (simp add: payload_of_def)
  have sel: "error (select_songs mem_env (db ?w)) = None"
    by (simp add: mem_env_def mem_select_def)
  have sk: "scanned mem_env permissive ?w (take 1 ?payload) =
              Inr (init_state\<lparr>toInsert := toInsert init_state @
                      [\<lparr>c_index = 0, c_row = candidate_row ''Amazing Grace''\<rparr>],
                    acceptedNames := acceptedNames init_state @ [JStr ''Amazing Grace'']\<rparr>)"
    by (simp add: scanned_def allowSimilar_of_def permissive_def scan_step_candidate_permissive)
  have f: "read_fields (?payload ! 1) = Inr ?f"
    by (simp add: broken_song_def read_fields_def opt_prop_def js_or_def js_coalesce_def nullish_def)
  have nm: "\<not> missing_fields ?f" by (simp add: missing_fields_def)
  have bl: "blockedBySimilarity mem_env (allowSimilar_of permissive) (similarity_of permissive)
           (existingNames_of (select_songs mem_env (db ?w)))
           (acceptedNames (init_state\<lparr>toInsert := toInsert init_state @
                      [\<lparr>c_index = 0, c_row = candidate_row ''Amazing Grace''\<rparr>],
                    acceptedNames := acceptedNames init_state @ [JStr ''Amazing Grace'']\<rparr>))
           (fst ?f) = Inr False"
    by (simp add: blockedBySimilarity_def allowSimilar_of_def permissive_def)
  have dec: "(\<exists>s m. fst (snd ?f) = JStr s \<and> JSON_parse mem_env s = Inl m)
       \<or> (\<exists>s m. snd (snd ?f) = JStr s \<and> JSON_parse mem_env s = Inl m)"
    by (simp add: mem_env_def eval_json)
  have k: "1 < length ?payload" by simp
  from decode_failure_aborts_request[OF p sel k sk f nm bl dec]
  show ?thesis by (simp add: mem_env_def mem_world_def)
qed

text \<open>
  A valid first record followed by a record whose \<^verbatim>\<open>main_stanza\<close> is the string
  \<^verbatim>\<open>{\<close>, in permissive mode: the response is the error body, and neither record
  gets an outcome or is inserted.
\<close>

theorem decode_failure_counterexample:
  "bulkImport mem_env permissive (JArr [candidate ''Amazing Grace'', broken_song])
     (mem_world [] [])
   = (Response 500 (ErrorBody ''Unexpected token in JSON''),
      \<lparr>db = \<lparr>stored = [], inserts_done = 0, failing = []\<rparr>,
       calls = [SelectSongs \<lparr>data = Some [], error = None\<rparr>]\<rparr>)"
  by (simp add: broken_song_def eval_request eval_mem)

end
